theory Spec2Isabelle
  imports Main "HOL-Library.Word"
begin

unbundle bit_operations_syntax

text \<open>
  A shallow embedding of parts of the Eshkol compiler: the code generation context, the
  generation of C for function calls, the compiler driver, the number routine of the
  lexer, the creation of bindings and the arena allocator. The model comes first, one
  section for each part of the source; the properties proved of it follow.
\<close>

section \<open>The code generation context (refactor/src/backend/codegen/context.c)\<close>

text \<open>
  Pointers to objects that live outside the modelled code (the arena, the diagnostic
  context, the type inference context) are handles: a natural number names the object
  and \<open>None\<close> is the NULL pointer. The output \<open>FILE*\<close> is the text written to the
  stream so far, \<open>None\<close> again being NULL. \<open>indent_level\<close> is a C \<open>int\<close> of 32
  bits; it is kept as an integer, and the one operation that can leave the range of
  \<open>int\<close>, the increment, wraps around.
\<close>

type_synonym handle = nat

record CodegenContext =
  arena :: "handle option"
  diagnostics :: "handle option"
  type_context :: "handle option"
  output_stream :: "string option"
  indent_level :: int
  in_function :: bool
  temp_dir :: "string option"

definition INT_MAX :: int where
  "INT_MAX = 2147483647"

definition INT_MIN :: int where
  "INT_MIN = - 2147483648"

text \<open>
  The value that a 32-bit two's complement \<open>int\<close> holds after an arithmetic result
  \<open>v\<close>: \<open>v\<close> itself inside the range, \<open>v\<close> reduced modulo \<open>2^32\<close> into the range
  outside it.
\<close>

definition int_wrap :: "int \<Rightarrow> int" where
  "int_wrap v = (v + 2147483648) mod 4294967296 - 2147483648"

text \<open>
  \<open>codegen_context_create\<close>: both asserted pointers are non-NULL by type. \<open>mem\<close> is what
  \<open>arena_alloc(arena, sizeof(CodegenContext))\<close> returned: \<open>False\<close> for NULL, in which
  case the function returns NULL.
\<close>

definition codegen_context_create ::
  "handle \<Rightarrow> handle \<Rightarrow> handle option \<Rightarrow> bool \<Rightarrow> CodegenContext option" where
  "codegen_context_create arena_p diagnostics_p type_context_p mem =
     (if \<not> mem then None
      else Some \<lparr> arena = Some arena_p,
                  diagnostics = Some diagnostics_p,
                  type_context = type_context_p,
                  output_stream = None,
                  indent_level = 0,
                  in_function = False,
                  temp_dir = None \<rparr>)"

definition codegen_context_get_type_context :: "CodegenContext \<Rightarrow> handle option" where
  "codegen_context_get_type_context ctx = type_context ctx"

definition codegen_context_get_output :: "CodegenContext \<Rightarrow> string option" where
  "codegen_context_get_output ctx = output_stream ctx"

definition codegen_context_get_indent_level :: "CodegenContext \<Rightarrow> int" where
  "codegen_context_get_indent_level ctx = indent_level ctx"

definition codegen_context_set_indent_level :: "CodegenContext \<Rightarrow> int \<Rightarrow> CodegenContext" where
  "codegen_context_set_indent_level ctx lvl = ctx\<lparr>indent_level := lvl\<rparr>"

text \<open>
  \<open>codegen_context_increment_indent\<close> is the unguarded \<open>context->indent_level++\<close>. At
  \<open>INT_MAX\<close> the increment overflows; the C standard leaves the signed overflow
  undefined, and the function as compiled stores the wrapped value \<open>INT_MIN\<close> and
  returns.
\<close>

definition codegen_context_increment_indent :: "CodegenContext \<Rightarrow> CodegenContext" where
  "codegen_context_increment_indent ctx = ctx\<lparr>indent_level := int_wrap (indent_level ctx + 1)\<rparr>"

definition codegen_context_decrement_indent :: "CodegenContext \<Rightarrow> CodegenContext" where
  "codegen_context_decrement_indent ctx =
     (if indent_level ctx > 0
      then ctx\<lparr>indent_level := indent_level ctx - 1\<rparr>
      else ctx)"

text \<open>
  \<open>codegen_context_write_indent\<close>: the loop \<open>for (i = 0; i < indent_level; i++)\<close> writes
  four spaces per level and nothing for a level that is not positive. The assertion
  \<open>output != NULL\<close> makes the function undefined on a NULL stream.
\<close>

fun write_indent_loop :: "nat \<Rightarrow> string \<Rightarrow> string" where
  "write_indent_loop 0 out = out"
| "write_indent_loop (Suc n) out = write_indent_loop n (out @ ''    '')"

definition codegen_context_write_indent :: "CodegenContext \<Rightarrow> CodegenContext option" where
  "codegen_context_write_indent ctx =
     (case output_stream ctx of
        None \<Rightarrow> None
      | Some out \<Rightarrow>
          Some (ctx\<lparr>output_stream := Some (write_indent_loop (nat (indent_level ctx)) out)\<rparr>))"

text \<open>A caller's sequence of indentation changes, run from left to right.\<close>

datatype IndentOp = Increment | Decrement

fun apply_indent_ops :: "IndentOp list \<Rightarrow> CodegenContext \<Rightarrow> CodegenContext" where
  "apply_indent_ops [] ctx = ctx"
| "apply_indent_ops (Increment # ops) ctx =
     apply_indent_ops ops (codegen_context_increment_indent ctx)"
| "apply_indent_ops (Decrement # ops) ctx =
     apply_indent_ops ops (codegen_context_decrement_indent ctx)"

text \<open>The context that \<open>codegen_context_create\<close> returns for the arena 1 and the diagnostics 2.\<close>

definition created_context :: CodegenContext where
  "created_context = \<lparr> arena = Some 1, diagnostics = Some 2, type_context = None,
                       output_stream = None, indent_level = 0, in_function = False,
                       temp_dir = None \<rparr>"

section \<open>Call code generation (calls.c, with the expression generator of expressions.c)\<close>

text \<open>
  The AST as the code generator reads it: \<open>node->type\<close> is the constructor, the member
  of the union \<open>node->as\<close> its arguments. \<open>AST_CALL callee args\<close> holds
  \<open>as.call.callee\<close> and the array \<open>as.call.args\<close>, whose length is \<open>as.call.arg_count\<close>.
  A \<open>long\<close> literal is a 64-bit word read as signed. Floating point is outside this
  model: a \<open>double\<close> literal is held as the text that \<open>%f\<close> prints for it.
  \<open>AST_OTHER t\<close> stands for a node whose type tag \<open>t\<close> the expression generator has no
  case for (an unhandled node variant).
\<close>

datatype AstNode =
    AST_INTEGER_LITERAL "64 word"
  | AST_FLOAT_LITERAL string
  | AST_IDENTIFIER string
  | AST_CALL AstNode "AstNode list"
  | AST_OTHER nat

text \<open>
  A generation step takes the context and returns the success flag with the context
  as the step leaves it. \<open>fprintf s\<close> appends \<open>s\<close> to the stream of the context and
  succeeds (a NULL stream has no content to append to, and stays NULL).
\<close>

type_synonym action = "CodegenContext \<Rightarrow> bool \<times> CodegenContext"

type_synonym generator = "CodegenContext \<Rightarrow> AstNode \<Rightarrow> bool \<times> CodegenContext"

definition emit :: "string \<Rightarrow> CodegenContext \<Rightarrow> CodegenContext" where
  "emit s ctx = ctx\<lparr>output_stream := map_option (\<lambda>out. out @ s) (output_stream ctx)\<rparr>"

definition fprintf :: "string \<Rightarrow> action" where
  "fprintf s ctx = (True, emit s ctx)"

text \<open>
  \<open>expression gen n\<close> is the step
  \<^verbatim>\<open>if (!codegen_generate_expression(context, n)) return false;\<close>
  for an expression generator \<open>gen\<close>, and \<open>run\<close> executes steps in order, returning
  false at the first step that fails, with nothing after it executed.
\<close>

definition expression :: "generator \<Rightarrow> AstNode \<Rightarrow> action" where
  "expression gen n ctx = gen ctx n"

fun run :: "action list \<Rightarrow> action" where
  "run [] ctx = (True, ctx)"
| "run (a # as) ctx =
     (case a ctx of (ok, ctx') \<Rightarrow> if ok then run as ctx' else (False, ctx'))"

text \<open>Decimal digits of a natural number, as \<open>%zu\<close> and \<open>%ld\<close> print them.\<close>

fun decimal :: "nat \<Rightarrow> string" where
  "decimal n = (if n < 10 then [''0123456789'' ! n]
                else decimal (n div 10) @ [''0123456789'' ! (n mod 10)])"

declare decimal.simps [simp del]

definition printf_ld :: "64 word \<Rightarrow> string" where
  "printf_ld v = (if sint v < 0 then ''-'' @ decimal (nat (- sint v)) else decimal (nat (sint v)))"

definition dquote :: char where
  "dquote = CHR 0x22"

definition backslash :: char where
  "backslash = CHR 0x5C"

text \<open>
  The loop that generates the arguments separated by \<open>", "\<close>:
  \<^verbatim>\<open>for (i = 0; i < arg_count; i++) { if (i > 0) fprintf(output, ", "); if (!gen(args[i])) return false; }\<close>
\<close>

definition argument_list :: "generator \<Rightarrow> AstNode list \<Rightarrow> action list" where
  "argument_list gen args =
     concat (map (\<lambda>i. (if 0 < i then [fprintf '', ''] else []) @ [expression gen (args ! i)])
                 [0..<length args])"

text \<open>The regular function call at the end of \<open>codegen_generate_call\<close>.\<close>

definition regular_call :: "generator \<Rightarrow> AstNode \<Rightarrow> AstNode list \<Rightarrow> action list" where
  "regular_call gen callee args =
     [expression gen callee, fprintf ''(''] @ argument_list gen args @ [fprintf '')'']"

text \<open>
  The dispatch of \<open>codegen_generate_call\<close> is one chain of \<open>else if\<close> on the operator
  name and the argument count. It is written here in the groups that the comments of
  the source mark, in the order of the source: each group gives the steps of the first
  of its branches that fires, and \<open>None\<close> when none does, in which case the chain goes
  on with the next group. Each branch is a straight line of writes and sub-expression
  generations. \<open>arg i\<close> is the step for \<open>args[i]\<close>.
\<close>

text \<open>
  Arithmetic operators. The branch for \<open>-\<close> is entered on the name alone; with neither
  one nor two arguments it writes nothing and control leaves the chain for the regular
  call.
\<close>

definition arithmetic_steps :: "generator \<Rightarrow> string \<Rightarrow> AstNode list \<Rightarrow> action list option" where
  "arithmetic_steps gen op_name args =
    (let arg_count = length args; arg = (\<lambda>i. expression gen (args ! i)) in
        if op_name = ''+'' \<and> arg_count = 2 then
          Some [fprintf ''('', arg 0, fprintf '' + '', arg 1, fprintf '')'']
        else if op_name = ''-'' then
          (if arg_count = 1 then
             Some [fprintf ''(-'', arg 0, fprintf '')'']
           else if arg_count = 2 then
             Some [fprintf ''('', arg 0, fprintf '' - '', arg 1, fprintf '')'']
           else Some (regular_call gen (AST_IDENTIFIER op_name) args))
        else if op_name = ''*'' \<and> arg_count = 2 then
          Some [fprintf ''('', arg 0, fprintf '' * '', arg 1, fprintf '')'']
        else if op_name = ''/'' \<and> arg_count = 2 then
          Some [fprintf ''('', arg 0, fprintf '' / '', arg 1, fprintf '')'']
        else None)"

text \<open>Comparison operators.\<close>

definition comparison_steps :: "generator \<Rightarrow> string \<Rightarrow> AstNode list \<Rightarrow> action list option" where
  "comparison_steps gen op_name args =
    (let arg_count = length args; arg = (\<lambda>i. expression gen (args ! i)) in
        if op_name = ''<'' \<and> arg_count = 2 then
          Some [fprintf ''('', arg 0, fprintf '' < '', arg 1, fprintf '')'']
        else if op_name = ''>'' \<and> arg_count = 2 then
          Some [fprintf ''('', arg 0, fprintf '' > '', arg 1, fprintf '')'']
        else if op_name = ''<='' \<and> arg_count = 2 then
          Some [fprintf ''('', arg 0, fprintf '' <= '', arg 1, fprintf '')'']
        else if op_name = ''>='' \<and> arg_count = 2 then
          Some [fprintf ''('', arg 0, fprintf '' >= '', arg 1, fprintf '')'']
        else if op_name = ''='' \<and> arg_count = 2 then
          Some [fprintf ''('', arg 0, fprintf '' == '', arg 1, fprintf '')'']
        else None)"

text \<open>Vector operations.\<close>

definition vector_steps :: "generator \<Rightarrow> string \<Rightarrow> AstNode list \<Rightarrow> action list option" where
  "vector_steps gen op_name args =
    (let arg_count = length args; arg = (\<lambda>i. expression gen (args ! i)) in
        if op_name = ''vector'' then
          Some ([fprintf ''vector_f_create_from_array(arena, (float[]){'']
                @ argument_list gen args
                @ [fprintf (''}, '' @ decimal arg_count @ '')'')])
        else if op_name = ''v+'' \<and> arg_count = 2 then
          Some [fprintf ''vector_f_add(arena, '', arg 0, fprintf '', '', arg 1, fprintf '')'']
        else if op_name = ''v-'' \<and> arg_count = 2 then
          Some [fprintf ''vector_f_sub(arena, '', arg 0, fprintf '', '', arg 1, fprintf '')'']
        else if op_name = ''v*'' \<and> arg_count = 2 then
          Some [fprintf ''vector_f_mul_scalar(arena, '', arg 0, fprintf '', '', arg 1, fprintf '')'']
        else if op_name = ''dot'' \<and> arg_count = 2 then
          Some [fprintf ''vector_f_dot('', arg 0, fprintf '', '', arg 1, fprintf '')'']
        else if op_name = ''cross'' \<and> arg_count = 2 then
          Some [fprintf ''vector_f_cross(arena, '', arg 0, fprintf '', '', arg 1, fprintf '')'']
        else if op_name = ''norm'' \<and> arg_count = 1 then
          Some [fprintf ''vector_f_magnitude('', arg 0, fprintf '')'']
        else None)"

text \<open>Differential operators on fields.\<close>

definition field_steps :: "generator \<Rightarrow> string \<Rightarrow> AstNode list \<Rightarrow> action list option" where
  "field_steps gen op_name args =
    (let arg_count = length args; arg = (\<lambda>i. expression gen (args ! i)) in
        if op_name = ''gradient'' \<and> arg_count = 2 then
          Some [fprintf ''compute_gradient(arena, '', arg 0, fprintf '', '', arg 1, fprintf '')'']
        else if op_name = ''divergence'' \<and> arg_count = 2 then
          Some [fprintf ''compute_divergence(arena, '', arg 0, fprintf '', '', arg 1, fprintf '')'']
        else if op_name = ''curl'' \<and> arg_count = 2 then
          Some [fprintf ''compute_curl(arena, '', arg 0, fprintf '', '', arg 1, fprintf '')'']
        else if op_name = ''laplacian'' \<and> arg_count = 2 then
          Some [fprintf ''compute_laplacian(arena, '', arg 0, fprintf '', '', arg 1, fprintf '')'']
        else None)"

text \<open>
  Scheme compatibility: \<open>display\<close>, \<open>string-append\<close> and \<open>number->string\<close>. The C
  format strings \<open>"%%s\\n"\<close> and \<open>"%%g"\<close> write \<open>%s\n\<close> and \<open>%g\<close> between double quotes.
\<close>

definition scheme_steps :: "generator \<Rightarrow> string \<Rightarrow> AstNode list \<Rightarrow> action list option" where
  "scheme_steps gen op_name args =
    (let arg_count = length args; arg = (\<lambda>i. expression gen (args ! i)) in
        if op_name = ''display'' \<and> arg_count = 1 then
          Some [fprintf (''printf('' @ [dquote] @ ''%s'' @ [backslash] @ ''n'' @ [dquote] @ '', ''),
                arg 0, fprintf '')'']
        else if op_name = ''string-append'' then
          Some ([fprintf (''({ char buffer[1024] = '' @ [dquote, dquote] @ ''; '')]
                @ concat (map (\<lambda>i. [fprintf ''strcat(buffer, '', arg i, fprintf ''); ''])
                              [0..<arg_count])
                @ [fprintf ''strdup(buffer); })''])
        else if op_name = ''number->string'' \<and> arg_count = 1 then
          Some [fprintf (''({ char buffer[64]; snprintf(buffer, sizeof(buffer), ''
                         @ [dquote] @ ''%g'' @ [dquote] @ '', ''),
                arg 0, fprintf ''); strdup(buffer); })'']
        else None)"

text \<open>Automatic differentiation.\<close>

definition autodiff_steps :: "generator \<Rightarrow> string \<Rightarrow> AstNode list \<Rightarrow> action list option" where
  "autodiff_steps gen op_name args =
    (let arg_count = length args; arg = (\<lambda>i. expression gen (args ! i)) in
        if op_name = ''autodiff-forward'' \<and> arg_count = 2 then
          Some [fprintf ''({ float (*wrapper_func)(VectorF*) = (float (*)(VectorF*))'',
                arg 0, fprintf ''; '',
                fprintf ''VectorF* vec_input = vector_f_create_from_array(arena, (float[]){'',
                arg 1, fprintf ''}, 1); '',
                fprintf ''vector_f_get(compute_gradient_autodiff(arena, wrapper_func, vec_input), 0); })'']
        else if op_name = ''autodiff-reverse'' \<and> arg_count = 2 then
          Some [fprintf ''({ float (*wrapper_func)(VectorF*) = (float (*)(VectorF*))'',
                arg 0, fprintf ''; '',
                fprintf ''VectorF* vec_input = vector_f_create_from_array(arena, (float[]){'',
                arg 1, fprintf ''}, 1); '',
                fprintf ''vector_f_get(compute_gradient_reverse_mode(arena, wrapper_func, vec_input), 0); })'']
        else if op_name = ''autodiff-forward-gradient'' \<and> arg_count = 2 then
          Some [fprintf ''({ float (*wrapper_func)(VectorF*) = (float (*)(VectorF*))'',
                arg 0, fprintf ''; '',
                fprintf ''compute_gradient_autodiff(arena, wrapper_func, '',
                arg 1, fprintf ''); })'']
        else if op_name = ''autodiff-reverse-gradient'' \<and> arg_count = 2 then
          Some [fprintf ''({ float (*wrapper_func)(VectorF*) = (float (*)(VectorF*))'',
                arg 0, fprintf ''; '',
                fprintf ''compute_gradient_reverse_mode(arena, wrapper_func, '',
                arg 1, fprintf ''); })'']
        else if op_name = ''autodiff-jacobian'' \<and> arg_count = 2 then
          Some [fprintf ''({ VectorF* (*wrapper_func)(Arena*, VectorF*) = (VectorF* (*)(Arena*, VectorF*))'',
                arg 0, fprintf ''; '',
                fprintf ''compute_jacobian(arena, wrapper_func, '',
                arg 1, fprintf ''); })'']
        else if op_name = ''autodiff-hessian'' \<and> arg_count = 2 then
          Some [fprintf ''({ float (*wrapper_func)(VectorF*) = (float (*)(VectorF*))'',
                arg 0, fprintf ''; '',
                fprintf ''compute_hessian(arena, wrapper_func, '',
                arg 1, fprintf ''); })'']
        else if op_name = ''derivative'' \<and> arg_count = 2 then
          Some [fprintf ''({ float (*wrapper_func)(float) = (float (*)(float))'',
                arg 0, fprintf ''; '',
                fprintf ''compute_nth_derivative(arena, wrapper_func, '',
                arg 1, fprintf '', 1); })'']
        else None)"

text \<open>Element access and \<open>printf\<close>.\<close>

definition access_steps :: "generator \<Rightarrow> string \<Rightarrow> AstNode list \<Rightarrow> action list option" where
  "access_steps gen op_name args =
    (let arg_count = length args; arg = (\<lambda>i. expression gen (args ! i)) in
        if op_name = ''vector-ref'' \<and> arg_count = 2 then
          Some [fprintf ''('', arg 0, fprintf ''->data['', arg 1, fprintf ''])'']
        else if op_name = ''matrix-ref'' \<and> arg_count = 3 then
          Some [fprintf ''('', arg 0, fprintf ''['', arg 1, fprintf '']->data['', arg 2,
                fprintf ''])'']
        else if op_name = ''printf'' then
          Some ([fprintf ''printf(''] @ argument_list gen args @ [fprintf '')''])
        else None)"

text \<open>
  The whole chain: the first group with a firing branch decides. A callee that is no
  identifier and an operator name for which no branch fires reach the regular call.
\<close>

fun first_some :: "'a option list \<Rightarrow> 'a option" where
  "first_some [] = None"
| "first_some (None # xs) = first_some xs"
| "first_some (Some x # xs) = Some x"

definition intrinsic_steps :: "generator \<Rightarrow> string \<Rightarrow> AstNode list \<Rightarrow> action list option" where
  "intrinsic_steps gen op_name args =
     first_some [arithmetic_steps gen op_name args,
                 comparison_steps gen op_name args,
                 vector_steps gen op_name args,
                 field_steps gen op_name args,
                 scheme_steps gen op_name args,
                 autodiff_steps gen op_name args,
                 access_steps gen op_name args]"

definition codegen_call_steps :: "generator \<Rightarrow> AstNode \<Rightarrow> AstNode list \<Rightarrow> action list" where
  "codegen_call_steps gen callee args =
     (case callee of
        AST_IDENTIFIER op_name \<Rightarrow>
          (case intrinsic_steps gen op_name args of
             Some steps \<Rightarrow> steps
           | None \<Rightarrow> regular_call gen callee args)
      | _ \<Rightarrow> regular_call gen callee args)"

text \<open>
  \<open>codegen_generate_call\<close> asserts \<open>node->type == AST_CALL\<close>: it is defined on call
  nodes only.
\<close>

fun codegen_generate_call :: "generator \<Rightarrow> CodegenContext \<Rightarrow> AstNode \<Rightarrow> bool \<times> CodegenContext" where
  "codegen_generate_call gen ctx (AST_CALL callee args) = run (codegen_call_steps gen callee args) ctx"

declare codegen_generate_call.simps [simp del]

text \<open>
  \<open>codegen_generate_expression\<close> as the source gives it: the switch has the two literal
  cases and a node that no case takes reaches the final \<open>return false\<close> with nothing
  written. The remaining cases of the switch are elided in the source and are left out
  here, so this instance generates literals only. The debug message sent to the
  diagnostics does not touch the context and is left out as well. The theorems on
  \<open>codegen_generate_call\<close> below hold for every expression generator, so they do not
  depend on the elided cases; this one serves as the concrete instance.
\<close>

definition codegen_generate_expression :: generator where
  "codegen_generate_expression ctx node =
     (case node of
        AST_INTEGER_LITERAL v \<Rightarrow> fprintf (printf_ld v) ctx
      | AST_FLOAT_LITERAL txt \<Rightarrow> fprintf txt ctx
      | _ \<Rightarrow> (False, ctx))"

text \<open>
  The operators of the first two groups and the C operator each is lowered to, as the
  specification lists them.
\<close>

definition operator_table :: "string list" where
  "operator_table = [''+'', ''-'', ''*'', ''/'', ''<'', ''>'', ''<='', ''>='', ''='']"

definition c_operator :: "string \<Rightarrow> string" where
  "c_operator op_name = (if op_name = ''='' then ''=='' else op_name)"


definition prepend :: "string \<Rightarrow> CodegenContext \<Rightarrow> CodegenContext" where
  "prepend pre ctx = ctx\<lparr>output_stream := map_option (\<lambda>out. pre @ out) (output_stream ctx)\<rparr>"

definition stream_independent :: "action \<Rightarrow> bool" where
  "stream_independent a =
     (\<forall>pre c. a (prepend pre c) = (fst (a c), prepend pre (snd (a c))))"


text \<open>
  What is written to an open stream. A step writes the text \<open>t\<close> when, on every context
  whose stream is open and holds \<open>out\<close>, it succeeds and leaves the same context with
  the stream holding \<open>out\<close> followed by \<open>t\<close>. A generator writes \<open>t\<close> for a node when
  its step for this node does. \<open>comma_separated\<close> is the text of an argument list: the
  texts of the arguments with \<open>", "\<close> between them.
\<close>

definition step_writes :: "action \<Rightarrow> string \<Rightarrow> bool" where
  "step_writes a t =
     (\<forall>c out. output_stream c = Some out \<longrightarrow> a c = (True, c\<lparr>output_stream := Some (out @ t)\<rparr>))"

definition writes :: "generator \<Rightarrow> AstNode \<Rightarrow> string \<Rightarrow> bool" where
  "writes gen n t =
     (\<forall>c out. output_stream c = Some out \<longrightarrow> gen c n = (True, c\<lparr>output_stream := Some (out @ t)\<rparr>))"

fun comma_separated :: "string list \<Rightarrow> string" where
  "comma_separated [] = []"
| "comma_separated [t] = t"
| "comma_separated (t # u # ts) = t @ '', '' @ comma_separated (u # ts)"

text \<open>\<open>codegen_context_set_output\<close> stores the stream it is given.\<close>

definition codegen_context_set_output :: "CodegenContext \<Rightarrow> string option \<Rightarrow> CodegenContext" where
  "codegen_context_set_output ctx out = ctx\<lparr>output_stream := out\<rparr>"

text \<open>
  A context as \<open>codegen_context_create\<close> leaves it, after \<open>codegen_context_set_output\<close>
  has given it an open stream to which nothing has been written yet.
\<close>

definition open_context :: CodegenContext where
  "open_context = \<lparr> arena = Some 1, diagnostics = Some 2, type_context = None,
                    output_stream = Some [], indent_level = 0, in_function = False,
                    temp_dir = None \<rparr>"

section \<open>The compiler driver (src/main.c)\<close>

text \<open>
  \<open>main\<close> calls functions of other modules and of the C library. What they return is
  not decided in \<open>main.c\<close>, so the model takes the outcome of each call as given:
  for the functions that return a pointer, whether it is non-NULL; for
  \<open>codegen_generate\<close>, its flag; for \<open>codegen_compile_and_execute\<close>, its \<open>int\<close>.
  \<open>read_file\<close> returns NULL when the file cannot be opened, when the buffer cannot be
  allocated and when the read comes short.
\<close>

record Outcomes =
  read_file_result :: bool
  arena_create_result :: bool
  string_table_create_result :: bool
  diagnostic_context_create_result :: bool
  lexer_create_result :: bool
  parser_create_result :: bool
  parser_parse_program_result :: bool
  codegen_context_create_result :: bool
  codegen_generate_result :: bool
  codegen_compile_and_execute_result :: int

text \<open>The calls that \<open>main\<close> makes, recorded in the order in which it makes them.\<close>

datatype ExtCall =
    CALL_read_file
  | CALL_arena_create
  | CALL_string_table_create
  | CALL_diagnostic_context_create
  | CALL_diagnostic_context_set_verbosity
  | CALL_lexer_create
  | CALL_parser_create
  | CALL_parser_parse_program
  | CALL_codegen_context_create
  | CALL_codegen_generate
  | CALL_codegen_compile_and_execute
  | CALL_arena_destroy
  | CALL_free

text \<open>
  The option loop
  \<^verbatim>\<open>while (arg_index < argc && argv[arg_index][0] == '-')\<close>
  over the arguments after the program name. It ends the program with a code
  (\<open>-h\<close> with 0, an unknown option with 1), or leaves the two mode flags and the
  arguments not yet consumed.
\<close>

datatype Options = Exit int | Proceed bool bool "string list"

fun parse_options :: "string list \<Rightarrow> bool \<Rightarrow> bool \<Rightarrow> Options" where
  "parse_options [] verbose_mode debug_mode = Proceed verbose_mode debug_mode []"
| "parse_options (arg # rest) verbose_mode debug_mode =
     (if take 1 arg = ''-'' then
        (if arg = ''-v'' \<or> arg = ''--verbose'' then parse_options rest True debug_mode
         else if arg = ''-d'' \<or> arg = ''--debug'' then parse_options rest True True
         else if arg = ''-h'' \<or> arg = ''--help'' then Exit 0
         else Exit 1)
      else Proceed verbose_mode debug_mode (arg # rest))"

text \<open>
  \<open>main\<close>: the exit code and the calls made. \<open>argv\<close> includes the program name. Messages
  printed to the standard streams are left out. Every failure path after the arena
  exists destroys the arena and frees the source before it returns 1.
\<close>

definition main :: "string list \<Rightarrow> Outcomes \<Rightarrow> int \<times> ExtCall list" where
  "main argv oc =
     (case parse_options (drop 1 argv) False False of
        Exit code \<Rightarrow> (code, [])
      | Proceed verbose_mode debug_mode rest \<Rightarrow>
          (case rest of
             [] \<Rightarrow> (1, [])
           | input_file # others \<Rightarrow>
               let output_file = (case others of [] \<Rightarrow> None | f # _ \<Rightarrow> Some f);
                   cleanup = [CALL_arena_destroy, CALL_free];
                   c1 = [CALL_read_file];
                   c2 = c1 @ [CALL_arena_create];
                   c3 = c2 @ [CALL_string_table_create];
                   c4 = c3 @ [CALL_diagnostic_context_create];
                   c5 = c4 @ (if debug_mode \<or> verbose_mode
                              then [CALL_diagnostic_context_set_verbosity] else []);
                   c6 = c5 @ [CALL_lexer_create];
                   c7 = c6 @ [CALL_parser_create];
                   c8 = c7 @ [CALL_parser_parse_program];
                   c9 = c8 @ [CALL_codegen_context_create];
                   c10 = c9 @ [CALL_codegen_generate];
                   c11 = c10 @ [CALL_codegen_compile_and_execute]
               in
               if \<not> read_file_result oc then (1, c1)
               else if \<not> arena_create_result oc then (1, c2 @ [CALL_free])
               else if \<not> string_table_create_result oc then (1, c3 @ cleanup)
               else if \<not> diagnostic_context_create_result oc then (1, c4 @ cleanup)
               else if \<not> lexer_create_result oc then (1, c6 @ cleanup)
               else if \<not> parser_create_result oc then (1, c7 @ cleanup)
               else if \<not> parser_parse_program_result oc then (1, c8 @ cleanup)
               else if \<not> codegen_context_create_result oc then (1, c9 @ cleanup)
               else if output_file \<noteq> None then
                 (if \<not> codegen_generate_result oc then (1, c10 @ cleanup)
                  else (0, c10 @ cleanup))
               else
                 (if \<not> codegen_generate_result oc then (1, c10 @ cleanup)
                  else if codegen_compile_and_execute_result oc \<noteq> 0 then (1, c11 @ cleanup)
                  else (0, c11 @ cleanup))))"

text \<open>
  The command line as the specification describes it,
  \<^verbatim>\<open>compiler [options] <input> [output.c]\<close>:
  the options are the leading arguments that begin with \<open>-\<close>, the operands what follows
  them. \<open>-v\<close> and \<open>-d\<close> (and their long forms) only set a mode; the first option that
  is none of these is either the help option or an unknown option.
\<close>

definition is_option :: "string \<Rightarrow> bool" where
  "is_option arg = (take 1 arg = ''-'')"

definition mode_flag :: "string \<Rightarrow> bool" where
  "mode_flag arg = (arg \<in> set [''-v'', ''--verbose'', ''-d'', ''--debug''])"

definition help_flag :: "string \<Rightarrow> bool" where
  "help_flag arg = (arg \<in> set [''-h'', ''--help''])"

definition options :: "string list \<Rightarrow> string list" where
  "options argv = takeWhile is_option (drop 1 argv)"

definition operands :: "string list \<Rightarrow> string list" where
  "operands argv = dropWhile is_option (drop 1 argv)"

definition first_other_option :: "string list \<Rightarrow> string option" where
  "first_other_option argv = find (\<lambda>arg. \<not> mode_flag arg) (options argv)"

definition help_requested :: "string list \<Rightarrow> bool" where
  "help_requested argv = (case first_other_option argv of Some arg \<Rightarrow> help_flag arg | None \<Rightarrow> False)"

definition unknown_option :: "string list \<Rightarrow> bool" where
  "unknown_option argv =
     (case first_other_option argv of Some arg \<Rightarrow> \<not> help_flag arg | None \<Rightarrow> False)"

definition missing_input :: "string list \<Rightarrow> bool" where
  "missing_input argv = (first_other_option argv = None \<and> operands argv = [])"

definition output_given :: "string list \<Rightarrow> bool" where
  "output_given argv = (2 \<le> length (operands argv))"

definition creation_failed :: "Outcomes \<Rightarrow> bool" where
  "creation_failed oc =
     (\<not> arena_create_result oc \<or> \<not> string_table_create_result oc
      \<or> \<not> diagnostic_context_create_result oc \<or> \<not> lexer_create_result oc
      \<or> \<not> parser_create_result oc \<or> \<not> codegen_context_create_result oc)"

text \<open>
  The stages of the pipeline as the specification numbers them, and the stage to which
  a call of \<open>main\<close> belongs. No function that \<open>main\<close> calls belongs to the binding
  resolver or to the type inferencer.
\<close>

datatype Stage = Lexer | Parser | BindingResolver | TypeInferencer | CodeGenerator

fun stage_of :: "ExtCall \<Rightarrow> Stage option" where
  "stage_of CALL_lexer_create = Some Lexer"
| "stage_of CALL_parser_create = Some Parser"
| "stage_of CALL_parser_parse_program = Some Parser"
| "stage_of CALL_codegen_context_create = Some CodeGenerator"
| "stage_of CALL_codegen_generate = Some CodeGenerator"
| "stage_of _ = None"

definition pipeline :: "ExtCall list \<Rightarrow> Stage list" where
  "pipeline calls = remdups_adj (List.map_filter stage_of calls)"

definition all_succeed :: Outcomes where
  "all_succeed = \<lparr> read_file_result = True, arena_create_result = True,
                   string_table_create_result = True, diagnostic_context_create_result = True,
                   lexer_create_result = True, parser_create_result = True,
                   parser_parse_program_result = True, codegen_context_create_result = True,
                   codegen_generate_result = True, codegen_compile_and_execute_result = 0 \<rparr>"

definition specified_pipeline :: "Stage list" where
  "specified_pipeline = [Lexer, Parser, BindingResolver, TypeInferencer, CodeGenerator]"


section \<open>The lexer's number routine (lexer.c)\<close>

text \<open>
  The lexer reads a NUL-terminated source text. \<open>source\<close> is the text without the
  terminator; \<open>start\<close> and \<open>current\<close> are the offsets of the pointers \<open>lexer->start\<close>
  and \<open>lexer->current\<close> into it. The source gives \<open>number\<close> itself; the helpers it
  calls are declared elsewhere.
\<close>

record Lexer =
  source :: string
  start :: nat
  current :: nat

datatype TokenType = TOKEN_NUMBER | TOKEN_OTHER

datatype 'd TokenValue = VALUE_NONE | VALUE_FLOATING 'd | VALUE_INTEGER int

record 'd Token =
  type :: TokenType
  byte_offset :: nat
  length_bytes :: nat
  val :: "'d TokenValue"

text \<open>
  Modelled from the spec: \<open>peek\<close> is missing from the source. The lexer turns the
  byte stream into tokens one byte at a time; \<open>peek\<close> is the byte at \<open>current\<close>, which
  at the end of the text is the terminating NUL.
\<close>

definition peek :: "Lexer \<Rightarrow> char" where
  "peek lexer = (if current lexer < length (source lexer) then source lexer ! current lexer
                 else CHR 0x00)"

text \<open>
  Modelled from the spec: \<open>peek_next\<close> is missing from the source. It is the byte after
  the one at \<open>current\<close>, and NUL when there is none.
\<close>

definition peek_next :: "Lexer \<Rightarrow> char" where
  "peek_next lexer = (if current lexer + 1 < length (source lexer)
                      then source lexer ! (current lexer + 1) else CHR 0x00)"

text \<open>
  Modelled from the spec: \<open>advance\<close> is missing from the source. It consumes the byte
  at \<open>current\<close>.
\<close>

definition advance :: "Lexer \<Rightarrow> Lexer" where
  "advance lexer = lexer\<lparr>current := current lexer + 1\<rparr>"

text \<open>
  Modelled from the spec: \<open>is_digit\<close> is missing from the source. The digits of a
  number are the decimal digits.
\<close>

definition is_digit :: "char \<Rightarrow> bool" where
  "is_digit c = (c \<in> set ''0123456789'')"

text \<open>
  Modelled from the spec: \<open>make_token\<close> is missing from the source. A token has a kind
  and a span with a byte offset and a length; the token made is the text from \<open>start\<close>
  to \<open>current\<close>, and it carries no value yet.
\<close>

definition make_token :: "Lexer \<Rightarrow> TokenType \<Rightarrow> 'd Token" where
  "make_token lexer t = \<lparr> type = t, byte_offset = start lexer,
                          length_bytes = current lexer - start lexer, val = VALUE_NONE \<rparr>"

text \<open>The loop \<^verbatim>\<open>while (is_digit(peek(lexer))) advance(lexer);\<close>\<close>

function skip_digits :: "Lexer \<Rightarrow> Lexer" where
  "skip_digits lexer = (if is_digit (peek lexer) then skip_digits (advance lexer) else lexer)"
  by pat_completeness auto
termination
proof (relation "measure (\<lambda>lexer. length (source lexer) - current lexer)")
  show "wf (measure (\<lambda>lexer. length (source lexer) - current lexer))"
    by simp
next
  fix lexer :: Lexer
  assume "is_digit (peek lexer)"
  then have "current lexer < length (source lexer)"
    by (auto simp: peek_def is_digit_def split: if_splits)
  then show "(advance lexer, lexer) \<in> measure (\<lambda>lexer. length (source lexer) - current lexer)"
    by (simp add: advance_def)
qed

declare skip_digits.simps [simp del]

text \<open>
  The loop that looks for a decimal point in the first \<open>length\<close> bytes at \<open>start\<close>,
  leaving at the first one found.
\<close>

fun is_float_loop :: "string \<Rightarrow> bool" where
  "is_float_loop [] = False"
| "is_float_loop (c # cs) = (if c = CHR ''.'' then True else is_float_loop cs)"

text \<open>
  \<open>number\<close>. The conversions \<open>strtod\<close> and \<open>strtol\<close> belong to the C library and are
  parameters; both are given the C string at \<open>lexer->start\<close>, which runs to the end of
  the source text, and \<open>strtol\<close> the base 10. The result is the token and the lexer as
  the routine leaves it.
\<close>

definition number ::
  "(string \<Rightarrow> 'd) \<Rightarrow> (string \<Rightarrow> int \<Rightarrow> int) \<Rightarrow> Lexer \<Rightarrow> 'd Token \<times> Lexer" where
  "number strtod strtol lexer =
     (let lexer1 = skip_digits lexer;
          lexer2 = (if peek lexer1 = CHR ''.'' \<and> is_digit (peek_next lexer1)
                    then skip_digits (advance lexer1) else lexer1);
          token = make_token lexer2 TOKEN_NUMBER;
          text_at_start = drop (start lexer2) (source lexer2);
          is_float = is_float_loop (take (length_bytes token) text_at_start)
      in (token\<lparr>val := (if is_float then VALUE_FLOATING (strtod text_at_start)
                          else VALUE_INTEGER (strtol text_at_start 10))\<rparr>,
          lexer2))"

text \<open>The lexeme of a token: the bytes of its span.\<close>

definition lexeme :: "Lexer \<Rightarrow> 'd Token \<Rightarrow> string" where
  "lexeme lexer token = take (length_bytes token) (drop (byte_offset token) (source lexer))"


section \<open>The binding system (binding.c)\<close>

text \<open>
  The binding table holds four parallel arrays; each is kept here as the list of its
  first \<open>count\<close> entries, the ones that have been written. \<open>count\<close> and \<open>capacity\<close> are
  \<open>size_t\<close>, the ids \<open>uint64_t\<close>: 64-bit words.
\<close>

text \<open>
  Modelled from the spec: the declaration of \<open>StringId\<close> is missing from the source. The
  string interner maps a text to a stable integer id.
\<close>

type_synonym StringId = nat

text \<open>
  Modelled from the spec: the declaration of \<open>BindingFlags\<close> is missing from the source.
  The flags of a binding (mutable, captured, parameter) are a set of bits.
\<close>

type_synonym BindingFlags = nat

record BindingTable =
  binding_ids :: "64 word list"
  scope_ids :: "64 word list"
  names :: "StringId list"
  flags :: "BindingFlags list"
  count :: "64 word"
  capacity :: "64 word"

record BindingSystem =
  binding_table :: BindingTable
  next_binding_id :: "64 word"

text \<open>
  The four assignments at index \<open>count\<close> and the increment of \<open>count\<close> that end
  \<open>binding_system_create_binding\<close>.
\<close>

definition add_binding ::
  "BindingTable \<Rightarrow> 64 word \<Rightarrow> 64 word \<Rightarrow> StringId \<Rightarrow> BindingFlags \<Rightarrow> BindingTable" where
  "add_binding table binding_id scope_id name binding_flags =
     table\<lparr> binding_ids := take (unat (count table)) (binding_ids table) @ [binding_id],
            scope_ids := take (unat (count table)) (scope_ids table) @ [scope_id],
            names := take (unat (count table)) (names table) @ [name],
            flags := take (unat (count table)) (flags table) @ [binding_flags],
            count := count table + 1 \<rparr>"

text \<open>
  \<open>binding_system_create_binding\<close>. \<open>BINDING_ID_INVALID\<close> is a constant declared
  elsewhere and a parameter here. \<open>allocs\<close> tells for each of the four \<open>arena_alloc\<close>
  calls of the resize whether it returned a non-NULL pointer. The id is taken from
  \<open>next_binding_id\<close>, which is incremented, before the table is resized: a failed
  resize returns \<open>BINDING_ID_INVALID\<close> with the counter already advanced. The resize
  copies the \<open>count\<close> entries written so far, so the lists stay as they are.
\<close>

definition binding_system_create_binding ::
  "64 word \<Rightarrow> bool \<times> bool \<times> bool \<times> bool \<Rightarrow> BindingSystem \<Rightarrow> 64 word \<Rightarrow> StringId \<Rightarrow>
     BindingFlags \<Rightarrow> 64 word \<times> BindingSystem" where
  "binding_system_create_binding BINDING_ID_INVALID allocs system scope_id name binding_flags =
     (let binding_id = next_binding_id system;
          system1 = system\<lparr>next_binding_id := next_binding_id system + 1\<rparr>;
          table = binding_table system1
      in if capacity table \<le> count table then
           (let new_capacity = (if capacity table * 2 = 0 then 8 else capacity table * 2)
            in case allocs of (new_binding_ids, new_scope_ids, new_names, new_flags) \<Rightarrow>
                 if \<not> new_binding_ids \<or> \<not> new_scope_ids \<or> \<not> new_names \<or> \<not> new_flags
                 then (BINDING_ID_INVALID, system1)
                 else (binding_id,
                       system1\<lparr>binding_table :=
                         add_binding (table\<lparr>capacity := new_capacity\<rparr>)
                           binding_id scope_id name binding_flags\<rparr>))
         else (binding_id,
               system1\<lparr>binding_table :=
                 add_binding table binding_id scope_id name binding_flags\<rparr>))"

text \<open>
  A call succeeds when it does not take the failure return: the table has room, or all
  four allocations of the resize succeed.
\<close>

definition create_succeeds :: "bool \<times> bool \<times> bool \<times> bool \<Rightarrow> BindingSystem \<Rightarrow> bool" where
  "create_succeeds allocs system =
     (count (binding_table system) < capacity (binding_table system)
      \<or> allocs = (True, True, True, True))"

text \<open>
  Successive calls on one binding system. A request is the scope, the name, the flags
  and the allocation outcomes of one call; the result lists the ids that the
  successful calls returned, in call order.
\<close>

type_synonym request = "64 word \<times> StringId \<times> BindingFlags \<times> (bool \<times> bool \<times> bool \<times> bool)"

fun create_bindings :: "64 word \<Rightarrow> BindingSystem \<Rightarrow> request list \<Rightarrow> 64 word list" where
  "create_bindings BINDING_ID_INVALID system [] = []"
| "create_bindings BINDING_ID_INVALID system ((scope_id, name, binding_flags, allocs) # requests) =
     (case binding_system_create_binding BINDING_ID_INVALID allocs system scope_id name binding_flags of
        (binding_id, system') \<Rightarrow>
          (if create_succeeds allocs system then [binding_id] else [])
          @ create_bindings BINDING_ID_INVALID system' requests)"

text \<open>A binding system whose counter is one below the largest 64-bit value.\<close>

definition late_system :: BindingSystem where
  "late_system =
     \<lparr> binding_table = \<lparr> binding_ids = [], scope_ids = [], names = [], flags = [],
                         count = 0, capacity = 8 \<rparr>,
       next_binding_id = 0xFFFFFFFFFFFFFFFE \<rparr>"

text \<open>A binding system before its first binding, with the counter at 1.\<close>

definition fresh_system :: BindingSystem where
  "fresh_system =
     \<lparr> binding_table = \<lparr> binding_ids = [], scope_ids = [], names = [], flags = [],
                         count = 0, capacity = 0 \<rparr>,
       next_binding_id = 1 \<rparr>"


section \<open>The arena allocator (arena_alloc)\<close>

text \<open>
  A block is its header: the size of the data area and the number of bytes used, both
  \<open>size_t\<close>, 64 bits wide. The chain of blocks from \<open>arena->first\<close> along \<open>next\<close> is a
  list and \<open>arena->current\<close> an index into it. The data itself is not modelled; a
  pointer into a block is the index of the block with the offset into its data area.
\<close>

record Block =
  size_bytes :: "64 word"
  used :: "64 word"

record Arena =
  blocks :: "Block list"
  current_block :: nat
  total_used :: "64 word"
  allocation_count :: "64 word"
  min_block_size :: "64 word"

text \<open>
  The end of \<open>arena_alloc\<close>: the pointer is taken at \<open>used\<close> of the current block, then
  \<open>used\<close>, \<open>total_used\<close> and \<open>allocation_count\<close> are advanced.
\<close>

definition allocate_from_current :: "64 word \<Rightarrow> Arena \<Rightarrow> (nat \<times> 64 word) option \<times> Arena" where
  "allocate_from_current sz a =
     (let cur = blocks a ! current_block a
      in (Some (current_block a, used cur),
          a\<lparr> blocks := (blocks a)[current_block a := cur\<lparr>used := used cur + sz\<rparr>],
             total_used := total_used a + sz,
             allocation_count := allocation_count a + 1 \<rparr>))"

text \<open>
  \<open>arena_alloc\<close>. \<open>malloc_ok\<close> tells whether the \<open>malloc\<close> of a new block returns a
  non-NULL pointer. All arithmetic is that of \<open>size_t\<close> and wraps around. The new block
  is linked behind the current one and becomes the current block.
\<close>

definition arena_alloc :: "bool \<Rightarrow> Arena \<Rightarrow> 64 word \<Rightarrow> (nat \<times> 64 word) option \<times> Arena" where
  "arena_alloc malloc_ok a size_requested =
     (if size_requested = 0 then (None, a)
      else
        let sz = (size_requested + 7) AND NOT 7;
            cur = blocks a ! current_block a
        in if used cur + sz > size_bytes cur then
             (let doubled = size_bytes cur * 2;
                  new_block_size = (if doubled < sz then sz else doubled)
              in if \<not> malloc_ok then (None, a)
                 else allocate_from_current sz
                        (a\<lparr> blocks := take (current_block a + 1) (blocks a)
                                         @ [\<lparr> size_bytes = new_block_size, used = 0 \<rparr>],
                            current_block := current_block a + 1 \<rparr>))
           else allocate_from_current sz a)"

text \<open>The next multiple of 8 at or above a number.\<close>

definition round_up8 :: "nat \<Rightarrow> nat" where
  "round_up8 n = ((n + 7) div 8) * 8"

text \<open>An arena as \<open>arena_create(1024)\<close> leaves it: one empty block of 1024 bytes.\<close>

definition created_arena :: Arena where
  "created_arena = \<lparr> blocks = [\<lparr> size_bytes = 1024, used = 0 \<rparr>], current_block = 0,
                      total_used = 0, allocation_count = 0, min_block_size = 1024 \<rparr>"

text \<open>An arena whose only block of 1024 bytes has 1016 bytes in use.\<close>

definition nearly_full_arena :: Arena where
  "nearly_full_arena = \<lparr> blocks = [\<lparr> size_bytes = 1024, used = 1016 \<rparr>], current_block = 0,
                          total_used = 1016, allocation_count = 3, min_block_size = 1024 \<rparr>"


section \<open>The sign of the indentation level\<close>

lemma int_wrap_id: "INT_MIN \<le> v \<Longrightarrow> v \<le> INT_MAX \<Longrightarrow> int_wrap v = v"
  by (simp add: int_wrap_def INT_MIN_def INT_MAX_def)

lemma increment_below_max:
  "0 \<le> indent_level c \<Longrightarrow> indent_level c < INT_MAX \<Longrightarrow>
   codegen_context_increment_indent c = c\<lparr>indent_level := indent_level c + 1\<rparr>"
  by (simp add: codegen_context_increment_indent_def int_wrap_def INT_MAX_def)

lemma apply_indent_ops_append:
  "apply_indent_ops (xs @ ys) c = apply_indent_ops ys (apply_indent_ops xs c)"
proof (induction xs arbitrary: c)
  case Nil
  show ?case by simp
next
  case (Cons op xs)
  then show ?case by (cases op) simp_all
qed

lemma apply_indent_ops_bounds:
  "0 \<le> indent_level c \<Longrightarrow> indent_level c + int (count_list ops Increment) \<le> INT_MAX \<Longrightarrow>
   0 \<le> indent_level (apply_indent_ops ops c)
   \<and> indent_level (apply_indent_ops ops c) \<le> indent_level c + int (count_list ops Increment)"
proof (induction ops arbitrary: c)
  case Nil
  then show ?case by simp
next
  case (Cons op ops)
  show ?case
  proof (cases op)
    case Increment
    from Cons.prems Increment have lt: "indent_level c < INT_MAX"
      by simp
    with Cons.prems(1) have inc: "codegen_context_increment_indent c = c\<lparr>indent_level := indent_level c + 1\<rparr>"
      by (rule increment_below_max)
    have "0 \<le> indent_level (c\<lparr>indent_level := indent_level c + 1\<rparr>)"
      using Cons.prems(1) by simp
    moreover have "indent_level (c\<lparr>indent_level := indent_level c + 1\<rparr>) + int (count_list ops Increment)
        \<le> INT_MAX"
      using Cons.prems(2) Increment by simp
    ultimately have "0 \<le> indent_level (apply_indent_ops ops (c\<lparr>indent_level := indent_level c + 1\<rparr>))
      \<and> indent_level (apply_indent_ops ops (c\<lparr>indent_level := indent_level c + 1\<rparr>))
          \<le> indent_level (c\<lparr>indent_level := indent_level c + 1\<rparr>) + int (count_list ops Increment)"
      by (rule Cons.IH)
    with Increment inc show ?thesis by simp
  next
    case Decrement
    have d0: "0 \<le> indent_level (codegen_context_decrement_indent c)"
      using Cons.prems(1) by (simp add: codegen_context_decrement_indent_def)
    have d1: "indent_level (codegen_context_decrement_indent c) \<le> indent_level c"
      by (simp add: codegen_context_decrement_indent_def)
    from d1 Cons.prems(2) Decrement
    have "indent_level (codegen_context_decrement_indent c) + int (count_list ops Increment) \<le> INT_MAX"
      by simp
    with d0 have "0 \<le> indent_level (apply_indent_ops ops (codegen_context_decrement_indent c))
      \<and> indent_level (apply_indent_ops ops (codegen_context_decrement_indent c))
          \<le> indent_level (codegen_context_decrement_indent c) + int (count_list ops Increment)"
      by (rule Cons.IH)
    with Decrement d1 show ?thesis by simp
  qed
qed

lemma apply_increments:
  "0 \<le> indent_level c \<Longrightarrow> indent_level c + int n \<le> INT_MAX \<Longrightarrow>
   apply_indent_ops (replicate n Increment) c = c\<lparr>indent_level := indent_level c + int n\<rparr>"
proof (induction n arbitrary: c)
  case 0
  show ?case by simp
next
  case (Suc n)
  from Suc.prems have "indent_level c < INT_MAX"
    by simp
  with Suc.prems(1) have inc: "codegen_context_increment_indent c = c\<lparr>indent_level := indent_level c + 1\<rparr>"
    by (rule increment_below_max)
  have "apply_indent_ops (replicate n Increment) (c\<lparr>indent_level := indent_level c + 1\<rparr>)
      = (c\<lparr>indent_level := indent_level c + 1\<rparr>)
          \<lparr>indent_level := indent_level (c\<lparr>indent_level := indent_level c + 1\<rparr>) + int n\<rparr>"
    using Suc.prems by (intro Suc.IH) simp_all
  with inc show ?case by (simp add: add.assoc)
qed

text \<open>
  Claim C10 as stated fails. On the context that \<open>codegen_context_create\<close> returns,
  \<open>2^31\<close> calls of \<open>codegen_context_increment_indent\<close> leave \<open>indent_level\<close> at
  \<open>INT_MIN\<close>: the first \<open>2^31 - 1\<close> calls bring it to \<open>INT_MAX\<close> and the next one wraps
  around. The level is then negative.
\<close>

theorem indent_level_wraps_negative:
  "codegen_context_create 1 2 None True = Some created_context
   \<and> indent_level (apply_indent_ops (replicate 2147483647 Increment) created_context) = INT_MAX
   \<and> indent_level (apply_indent_ops (replicate 2147483647 Increment @ [Increment]) created_context)
       = - 2147483648
   \<and> indent_level (apply_indent_ops (replicate 2147483648 Increment) created_context) < 0"
proof -
  have c: "codegen_context_create 1 2 None True = Some created_context"
    by (simp add: codegen_context_create_def created_context_def)
  have "apply_indent_ops (replicate 2147483647 Increment) created_context
      = created_context\<lparr>indent_level := indent_level created_context + int 2147483647\<rparr>"
    by (rule apply_increments) (simp_all add: created_context_def INT_MAX_def)
  then have m: "apply_indent_ops (replicate 2147483647 Increment) created_context
      = created_context\<lparr>indent_level := 2147483647\<rparr>"
    by (simp add: created_context_def)
  then have a: "indent_level (apply_indent_ops (replicate 2147483647 Increment) created_context) = INT_MAX"
    by (simp add: INT_MAX_def)
  have b: "indent_level (apply_indent_ops (replicate 2147483647 Increment @ [Increment]) created_context)
      = - 2147483648"
    by (simp add: apply_indent_ops_append m codegen_context_increment_indent_def int_wrap_def)
  have "replicate 2147483648 Increment = replicate (2147483647 + 1) Increment"
    by simp
  also have "\<dots> = replicate 2147483647 Increment @ [Increment]"
    by (simp only: replicate_add) simp
  finally have "indent_level (apply_indent_ops (replicate 2147483648 Increment) created_context)
      = - 2147483648"
    using b by simp
  then have d: "indent_level (apply_indent_ops (replicate 2147483648 Increment) created_context) < 0"
    by simp
  from c a b d show ?thesis by blast
qed

text \<open>
  Claim C10, amended. A context that \<open>codegen_context_create\<close> returns has level 0. An
  increment below \<open>INT_MAX\<close> adds one, and at \<open>INT_MAX\<close> it gives \<open>INT_MIN\<close>. A decrement
  at level 0 changes nothing. After any sequence of increments and decrements with at
  most \<open>INT_MAX\<close> (that is \<open>2^31 - 1\<close>) increments, applied to a created context, the
  level is at least 0; more generally this holds from every context whose level is not
  negative when the level plus the number of increments is at most \<open>INT_MAX\<close>.
\<close>

theorem indent_level_never_negative:
  "(codegen_context_create a d t mem = Some c0 \<longrightarrow> indent_level c0 = 0)
   \<and> (INT_MIN \<le> indent_level c \<and> indent_level c < INT_MAX
        \<longrightarrow> indent_level (codegen_context_increment_indent c) = indent_level c + 1)
   \<and> (indent_level c = INT_MAX \<longrightarrow> indent_level (codegen_context_increment_indent c) = INT_MIN)
   \<and> (indent_level c = 0 \<longrightarrow> codegen_context_decrement_indent c = c)
   \<and> (codegen_context_create a d t mem = Some c0 \<and> int (count_list ops Increment) \<le> INT_MAX
        \<longrightarrow> 0 \<le> indent_level (apply_indent_ops ops c0))
   \<and> (0 \<le> indent_level c \<and> indent_level c + int (count_list ops Increment) \<le> INT_MAX
        \<longrightarrow> 0 \<le> indent_level (apply_indent_ops ops c))"
proof (intro conjI impI)
  assume "codegen_context_create a d t mem = Some c0"
  then show "indent_level c0 = 0"
    by (auto simp: codegen_context_create_def split: if_splits)
next
  assume "INT_MIN \<le> indent_level c \<and> indent_level c < INT_MAX"
  then show "indent_level (codegen_context_increment_indent c) = indent_level c + 1"
    by (simp add: codegen_context_increment_indent_def int_wrap_id INT_MIN_def INT_MAX_def)
next
  assume "indent_level c = INT_MAX"
  then show "indent_level (codegen_context_increment_indent c) = INT_MIN"
    by (simp add: codegen_context_increment_indent_def int_wrap_def INT_MIN_def INT_MAX_def)
next
  assume "indent_level c = 0"
  then show "codegen_context_decrement_indent c = c"
    by (simp add: codegen_context_decrement_indent_def)
next
  assume h: "codegen_context_create a d t mem = Some c0 \<and> int (count_list ops Increment) \<le> INT_MAX"
  then have "indent_level c0 = 0"
    by (auto simp: codegen_context_create_def split: if_splits)
  with h show "0 \<le> indent_level (apply_indent_ops ops c0)"
    using apply_indent_ops_bounds [of c0 ops] by simp
next
  assume "0 \<le> indent_level c \<and> indent_level c + int (count_list ops Increment) \<le> INT_MAX"
  then show "0 \<le> indent_level (apply_indent_ops ops c)"
    using apply_indent_ops_bounds [of c ops] by simp
qed

theorem indent_level_never_negative_witness:
  "codegen_context_create 1 2 None True = Some created_context
   \<and> int (count_list [Decrement, Increment, Increment, Decrement, Decrement, Decrement] Increment)
       \<le> INT_MAX
   \<and> apply_indent_ops [Decrement, Increment, Increment, Decrement, Decrement, Decrement]
        created_context = created_context
   \<and> indent_level (apply_indent_ops [Increment, Decrement, Increment] created_context) = 1
   \<and> (0::int) \<le> indent_level
        (apply_indent_ops [Decrement, Increment, Increment, Decrement, Decrement, Decrement]
           created_context)"
proof -
  let ?ops = "[Decrement, Increment, Increment, Decrement, Decrement, Decrement]"
  have c: "codegen_context_create 1 2 None True = Some created_context"
    by (simp add: codegen_context_create_def created_context_def)
  have n: "int (count_list ?ops Increment) \<le> INT_MAX"
    by (simp add: INT_MAX_def)
  have r: "apply_indent_ops ?ops created_context = created_context"
    by (simp add: created_context_def codegen_context_increment_indent_def
          codegen_context_decrement_indent_def int_wrap_def)
  have r1: "indent_level (apply_indent_ops [Increment, Decrement, Increment] created_context) = 1"
    by (simp add: created_context_def codegen_context_increment_indent_def
          codegen_context_decrement_indent_def int_wrap_def)
  from indent_level_never_negative [of 1 2 None True created_context _ ?ops] c n
  have "0 \<le> indent_level (apply_indent_ops ?ops created_context)"
    by blast
  with c n r r1 show ?thesis by blast
qed

section \<open>Properties of the generated steps\<close>

lemma first_some_cases:
  "first_some xs = Some y \<Longrightarrow> Some y \<in> set xs"
  by (induction xs rule: first_some.induct) auto

lemma argument_list_all:
  assumes "\<And>s. P (fprintf s)" and "\<And>n. P (expression gen n)"
  shows "list_all P (argument_list gen args)"
  using assms by (simp add: argument_list_def list_all_iff)

lemma regular_call_all:
  assumes "\<And>s. P (fprintf s)" and "\<And>n. P (expression gen n)"
  shows "list_all P (regular_call gen callee args)"
  using assms argument_list_all [of P gen args] by (simp add: regular_call_def)

lemma arithmetic_steps_all:
  assumes "\<And>s. P (fprintf s)" and "\<And>n. P (expression gen n)"
    and "arithmetic_steps gen op_name args = Some steps"
  shows "list_all P steps"
  using assms regular_call_all [of P gen "AST_IDENTIFIER op_name" args]
  by (auto simp: arithmetic_steps_def Let_def split: if_splits)

lemma comparison_steps_all:
  assumes "\<And>s. P (fprintf s)" and "\<And>n. P (expression gen n)"
    and "comparison_steps gen op_name args = Some steps"
  shows "list_all P steps"
  using assms
  by (auto simp: comparison_steps_def Let_def split: if_splits)

lemma vector_steps_all:
  assumes "\<And>s. P (fprintf s)" and "\<And>n. P (expression gen n)"
    and "vector_steps gen op_name args = Some steps"
  shows "list_all P steps"
  using assms argument_list_all [of P gen args]
  by (auto simp: vector_steps_def Let_def split: if_splits)

lemma field_steps_all:
  assumes "\<And>s. P (fprintf s)" and "\<And>n. P (expression gen n)"
    and "field_steps gen op_name args = Some steps"
  shows "list_all P steps"
  using assms
  by (auto simp: field_steps_def Let_def split: if_splits)

lemma scheme_steps_all:
  assumes "\<And>s. P (fprintf s)" and "\<And>n. P (expression gen n)"
    and "scheme_steps gen op_name args = Some steps"
  shows "list_all P steps"
  using assms
  by (auto simp: scheme_steps_def Let_def list_all_iff split: if_splits)

lemma autodiff_steps_all:
  assumes "\<And>s. P (fprintf s)" and "\<And>n. P (expression gen n)"
    and "autodiff_steps gen op_name args = Some steps"
  shows "list_all P steps"
  using assms
  by (auto simp: autodiff_steps_def Let_def split: if_splits)

lemma access_steps_all:
  assumes "\<And>s. P (fprintf s)" and "\<And>n. P (expression gen n)"
    and "access_steps gen op_name args = Some steps"
  shows "list_all P steps"
  using assms argument_list_all [of P gen args]
  by (auto simp: access_steps_def Let_def split: if_splits)

lemma intrinsic_steps_all:
  assumes f: "\<And>s. P (fprintf s)" and e: "\<And>n. P (expression gen n)"
    and "intrinsic_steps gen op_name args = Some steps"
  shows "list_all P steps"
proof -
  from assms(3) have "Some steps \<in> set [arithmetic_steps gen op_name args,
                 comparison_steps gen op_name args,
                 vector_steps gen op_name args,
                 field_steps gen op_name args,
                 scheme_steps gen op_name args,
                 autodiff_steps gen op_name args,
                 access_steps gen op_name args]"
    unfolding intrinsic_steps_def by (rule first_some_cases)
  then consider "arithmetic_steps gen op_name args = Some steps"
    | "comparison_steps gen op_name args = Some steps"
    | "vector_steps gen op_name args = Some steps"
    | "field_steps gen op_name args = Some steps"
    | "scheme_steps gen op_name args = Some steps"
    | "autodiff_steps gen op_name args = Some steps"
    | "access_steps gen op_name args = Some steps"
    by auto
  then show ?thesis
  proof cases
    case 1 then show ?thesis by (rule arithmetic_steps_all [OF f e])
  next
    case 2 then show ?thesis by (rule comparison_steps_all [OF f e])
  next
    case 3 then show ?thesis by (rule vector_steps_all [OF f e])
  next
    case 4 then show ?thesis by (rule field_steps_all [OF f e])
  next
    case 5 then show ?thesis by (rule scheme_steps_all [OF f e])
  next
    case 6 then show ?thesis by (rule autodiff_steps_all [OF f e])
  next
    case 7 then show ?thesis by (rule access_steps_all [OF f e])
  qed
qed

lemma codegen_call_steps_all:
  assumes f: "\<And>s. P (fprintf s)" and e: "\<And>n. P (expression gen n)"
  shows "list_all P (codegen_call_steps gen callee args)"
proof (cases callee)
  case (AST_IDENTIFIER op_name)
  show ?thesis
  proof (cases "intrinsic_steps gen op_name args")
    case None
    with AST_IDENTIFIER show ?thesis
      using regular_call_all [of P gen callee args, OF f e]
      by (simp add: codegen_call_steps_def)
  next
    case (Some steps)
    with AST_IDENTIFIER show ?thesis
      using intrinsic_steps_all [of P gen op_name args steps, OF f e]
      by (simp add: codegen_call_steps_def)
  qed
qed (use regular_call_all [of P gen callee args, OF f e] in \<open>simp_all add: codegen_call_steps_def\<close>)


subsection \<open>Properties of steps that \<open>run\<close> preserves\<close>

lemma emit_emit: "emit t (emit s c) = emit (s @ t) c"
  by (cases "output_stream c") (simp_all add: emit_def)

lemma prepend_emit: "emit s (prepend pre c) = prepend pre (emit s c)"
  by (cases "output_stream c") (simp_all add: emit_def prepend_def)


lemma stream_independent_fprintf: "stream_independent (fprintf s)"
  by (simp add: stream_independent_def fprintf_def prepend_emit)




lemma run_stream_independent:
  "list_all stream_independent steps \<Longrightarrow> stream_independent (run steps)"
proof (induction steps)
  case Nil
  show ?case by (simp add: stream_independent_def)
next
  case (Cons a steps)
  then have a: "stream_independent a" and r: "stream_independent (run steps)" by simp_all
  show ?case
    unfolding stream_independent_def
  proof (intro allI)
    fix pre c
    obtain ok c1 where ac: "a c = (ok, c1)" by (cases "a c")
    from a ac have ap: "a (prepend pre c) = (ok, prepend pre c1)"
      by (simp add: stream_independent_def)
    from r have rp: "run steps (prepend pre c1) = (fst (run steps c1), prepend pre (snd (run steps c1)))"
      by (simp add: stream_independent_def)
    show "run (a # steps) (prepend pre c)
            = (fst (run (a # steps) c), prepend pre (snd (run (a # steps) c)))"
      using ac ap rp by simp
  qed
qed



lemma gen_int_1: "codegen_generate_expression c (AST_INTEGER_LITERAL 1) = (True, emit ''1'' c)"
  by (simp add: codegen_generate_expression_def fprintf_def printf_ld_def decimal.simps)

lemma gen_int_2: "codegen_generate_expression c (AST_INTEGER_LITERAL 2) = (True, emit ''2'' c)"
  by (simp add: codegen_generate_expression_def fprintf_def printf_ld_def decimal.simps)


lemma gen_float: "codegen_generate_expression c (AST_FLOAT_LITERAL s) = (True, emit s c)"
  by (simp add: codegen_generate_expression_def fprintf_def)


lemma codegen_generate_expression_stream_independent:
  "codegen_generate_expression (prepend pre c) n
     = (fst (codegen_generate_expression c n), prepend pre (snd (codegen_generate_expression c n)))"
  by (cases n) (simp_all add: codegen_generate_expression_def fprintf_def prepend_emit)


lemma stream_independent_expression:
  "\<forall>pre c n. gen (prepend pre c) n = (fst (gen c n), prepend pre (snd (gen c n)))
   \<Longrightarrow> stream_independent (expression gen n)"
  by (simp add: stream_independent_def expression_def)

lemma write_indent_loop_prepend:
  "write_indent_loop n (pre @ out) = pre @ write_indent_loop n out"
  by (induction n arbitrary: out) simp_all

lemma autodiff_forward_steps:
  "codegen_call_steps gen (AST_IDENTIFIER ''autodiff-forward'') [f, x] =
     [fprintf ''({ float (*wrapper_func)(VectorF*) = (float (*)(VectorF*))'',
      expression gen f, fprintf ''; '',
      fprintf ''VectorF* vec_input = vector_f_create_from_array(arena, (float[]){'',
      expression gen x, fprintf ''}, 1); '',
      fprintf ''vector_f_get(compute_gradient_autodiff(arena, wrapper_func, vec_input), 0); })'']"
  by (simp add: codegen_call_steps_def intrinsic_steps_def arithmetic_steps_def
        comparison_steps_def vector_steps_def field_steps_def scheme_steps_def autodiff_steps_def)


subsection \<open>The text that a sequence of steps writes\<close>

lemma step_writes_fprintf: "step_writes (fprintf s) s"
  by (simp add: step_writes_def fprintf_def emit_def)

lemma step_writes_expression: "writes gen n t \<Longrightarrow> step_writes (expression gen n) t"
  by (simp add: step_writes_def writes_def expression_def)

lemma step_writes_run_Nil: "step_writes (run []) []"
  by (simp add: step_writes_def)

lemma step_writes_run_Cons:
  assumes a: "step_writes a s" and r: "step_writes (run steps) t"
  shows "step_writes (run (a # steps)) (s @ t)"
  unfolding step_writes_def
proof (intro allI impI)
  fix c :: CodegenContext and out
  assume out: "output_stream c = Some out"
  with a have ac: "a c = (True, c\<lparr>output_stream := Some (out @ s)\<rparr>)"
    by (simp add: step_writes_def)
  have "output_stream (c\<lparr>output_stream := Some (out @ s)\<rparr>) = Some (out @ s)"
    by simp
  with r have "run steps (c\<lparr>output_stream := Some (out @ s)\<rparr>)
      = (True, c\<lparr>output_stream := Some (out @ s)\<rparr>\<lparr>output_stream := Some ((out @ s) @ t)\<rparr>)"
    unfolding step_writes_def by blast
  with ac show "run (a # steps) c = (True, c\<lparr>output_stream := Some (out @ s @ t)\<rparr>)"
    by simp
qed

lemma step_writes_run_append:
  assumes x: "step_writes (run xs) s" and y: "step_writes (run ys) t"
  shows "step_writes (run (xs @ ys)) (s @ t)"
  unfolding step_writes_def
proof (intro allI impI)
  fix c :: CodegenContext and out
  assume out: "output_stream c = Some out"
  have app: "\<And>c. run (xs @ ys) c
      = (case run xs c of (ok, c') \<Rightarrow> if ok then run ys c' else (False, c'))"
  proof (induction xs)
    case Nil
    show ?case by simp
  next
    case (Cons a xs)
    then show ?case by (simp split: prod.splits)
  qed
  from x out have xc: "run xs c = (True, c\<lparr>output_stream := Some (out @ s)\<rparr>)"
    by (simp add: step_writes_def)
  have "output_stream (c\<lparr>output_stream := Some (out @ s)\<rparr>) = Some (out @ s)"
    by simp
  with y have "run ys (c\<lparr>output_stream := Some (out @ s)\<rparr>)
      = (True, c\<lparr>output_stream := Some (out @ s)\<rparr>\<lparr>output_stream := Some ((out @ s) @ t)\<rparr>)"
    unfolding step_writes_def by blast
  with xc show "run (xs @ ys) c = (True, c\<lparr>output_stream := Some (out @ s @ t)\<rparr>)"
    by (simp add: app)
qed

lemma argument_list_Nil: "argument_list gen [] = []"
  by (simp add: argument_list_def)

lemma argument_list_Cons:
  "argument_list gen (a # rest)
     = expression gen a # concat (map (\<lambda>x. [fprintf '', '', expression gen x]) rest)"
proof -
  have "argument_list gen (a # rest)
      = concat (map (\<lambda>i. (if 0 < i then [fprintf '', ''] else []) @ [expression gen ((a # rest) ! i)])
                    [0..<Suc (length rest)])"
    by (simp only: argument_list_def list.size) simp
  also have "\<dots> = expression gen a
        # concat (map (\<lambda>i. [fprintf '', '', expression gen (rest ! i)]) [0..<length rest])"
    by (simp only: map_upt_Suc) simp
  also have "map (\<lambda>i. [fprintf '', '', expression gen (rest ! i)]) [0..<length rest]
      = map (\<lambda>x. [fprintf '', '', expression gen x]) rest"
    by (intro nth_equalityI) simp_all
  finally show ?thesis .
qed

lemma later_arguments_written:
  "list_all2 (writes gen) rest ts \<Longrightarrow>
   step_writes (run (concat (map (\<lambda>x. [fprintf '', '', expression gen x]) rest)))
     (concat (map (\<lambda>t. '', '' @ t) ts))"
proof (induction rest ts rule: list_all2_induct)
  case Nil
  show ?case by (simp add: step_writes_def)
next
  case (Cons x rest t ts)
  have "step_writes (run (fprintf '', '' # expression gen x
            # concat (map (\<lambda>x. [fprintf '', '', expression gen x]) rest)))
          ('', '' @ t @ concat (map (\<lambda>t. '', '' @ t) ts))"
    by (intro step_writes_run_Cons step_writes_fprintf step_writes_expression Cons.hyps Cons.IH)
  then show ?case by (simp del: run.simps)
qed

lemma comma_separated_Cons:
  "comma_separated (t # ts) = t @ concat (map (\<lambda>t. '', '' @ t) ts)"
  by (induction ts arbitrary: t) simp_all

lemma argument_list_written:
  "list_all2 (writes gen) args ts \<Longrightarrow>
   step_writes (run (argument_list gen args)) (comma_separated ts)"
proof (cases args)
  case Nil
  assume "list_all2 (writes gen) args ts"
  with Nil have "ts = []" by simp
  with Nil show ?thesis by (simp add: argument_list_Nil step_writes_run_Nil)
next
  case (Cons a rest)
  assume "list_all2 (writes gen) args ts"
  with Cons obtain t ts' where ts: "ts = t # ts'" and a: "writes gen a t"
    and rest: "list_all2 (writes gen) rest ts'"
    by (auto simp: list_all2_Cons1)
  have "step_writes (run (expression gen a
            # concat (map (\<lambda>x. [fprintf '', '', expression gen x]) rest)))
          (t @ concat (map (\<lambda>t. '', '' @ t) ts'))"
    by (intro step_writes_run_Cons step_writes_expression a later_arguments_written rest)
  with Cons ts show ?thesis by (simp add: argument_list_Cons comma_separated_Cons)
qed

lemma regular_call_written:
  assumes c: "writes gen callee tc" and a: "list_all2 (writes gen) args ts"
  shows "step_writes (run (regular_call gen callee args)) (tc @ ''('' @ comma_separated ts @ '')'')"
proof -
  have "step_writes (run [fprintf '')'']) ('')'' @ [])"
    by (intro step_writes_run_Cons step_writes_fprintf step_writes_run_Nil)
  with argument_list_written [OF a]
  have "step_writes (run (argument_list gen args @ [fprintf '')'']))
          (comma_separated ts @ '')'' @ [])"
    by (rule step_writes_run_append)
  then have "step_writes (run (expression gen callee # fprintf ''(''
                # argument_list gen args @ [fprintf '')'']))
          (tc @ ''('' @ comma_separated ts @ '')'' @ [])"
    by (intro step_writes_run_Cons step_writes_expression c step_writes_fprintf)
  then show ?thesis by (simp add: regular_call_def)
qed


section \<open>Operator calls\<close>

lemma operator_steps_binary:
  "op_name \<in> set operator_table \<Longrightarrow>
   codegen_call_steps gen (AST_IDENTIFIER op_name) [a, b] =
     [fprintf ''('', expression gen a, fprintf ('' '' @ c_operator op_name @ '' ''),
      expression gen b, fprintf '')'']"
  by (auto simp: operator_table_def codegen_call_steps_def intrinsic_steps_def
        arithmetic_steps_def comparison_steps_def c_operator_def)

lemma operator_steps_unary_minus:
  "codegen_call_steps gen (AST_IDENTIFIER ''-'') [a] = [fprintf ''(-'', expression gen a, fprintf '')'']"
  by (simp add: codegen_call_steps_def intrinsic_steps_def arithmetic_steps_def)

lemma later_groups_none:
  "op_name \<in> set operator_table \<Longrightarrow>
   vector_steps gen op_name args = None \<and> field_steps gen op_name args = None
   \<and> scheme_steps gen op_name args = None \<and> autodiff_steps gen op_name args = None
   \<and> access_steps gen op_name args = None"
  unfolding operator_table_def
  by (elim disjE emptyE | simp only: set_simps insert_iff)+
     (simp_all add: vector_steps_def field_steps_def scheme_steps_def autodiff_steps_def access_steps_def)

lemma first_groups_other_arity:
  "op_name \<in> set operator_table \<Longrightarrow> length args \<noteq> 2 \<Longrightarrow>
   \<not> (op_name = ''-'' \<and> length args = 1) \<Longrightarrow>
   (arithmetic_steps gen op_name args = Some (regular_call gen (AST_IDENTIFIER op_name) args)
    \<or> arithmetic_steps gen op_name args = None)
   \<and> comparison_steps gen op_name args = None"
  unfolding operator_table_def
  by (elim disjE emptyE | simp only: set_simps insert_iff)+
     (simp_all add: arithmetic_steps_def comparison_steps_def)

lemma operator_steps_other_arity:
  assumes "op_name \<in> set operator_table" and "length args \<noteq> 2"
    and "\<not> (op_name = ''-'' \<and> length args = 1)"
  shows "codegen_call_steps gen (AST_IDENTIFIER op_name) args
           = regular_call gen (AST_IDENTIFIER op_name) args"
  using first_groups_other_arity [OF assms, of gen] later_groups_none [OF assms(1), of gen args]
  by (auto simp: codegen_call_steps_def intrinsic_steps_def)

text \<open>
  Claim C1. Let the callee be an identifier naming one of the operators
  \<open>+ - * / < > <= >= =\<close> and let the stream be open, holding \<open>out\<close>. With exactly two
  arguments, for which the expression generator writes \<open>ta\<close> and \<open>tb\<close>,
  \<open>codegen_generate_call\<close> returns true and the stream holds \<open>out\<close> followed by \<open>(\<close>,
  \<open>ta\<close>, a space, the C operator (\<open>==\<close> for \<open>=\<close>, the operator itself otherwise), a
  space, \<open>tb\<close> and \<open>)\<close>. With any other number of arguments, one-argument \<open>-\<close> apart, no
  operator branch fires and the call is generated as a regular call through the callee:
  the callee is generated first, on the context as the call found it, so that a callee
  that the generator rejects fails the call at once; and when the generator writes \<open>tc\<close>
  for the callee and the texts \<open>ts\<close> for the arguments, the call returns true and the
  stream holds \<open>out\<close> followed by \<open>tc\<close>, \<open>(\<close>, the texts \<open>ts\<close> separated by \<open>", "\<close> and
  \<open>)\<close>. One-argument \<open>-\<close> is the unary minus: \<open>(-\<close>, the argument and \<open>)\<close>.
\<close>

theorem codegen_generate_call_operators:
  "op_name \<in> set operator_table \<and> output_stream ctx = Some out \<longrightarrow>
     (writes gen a ta \<and> writes gen b tb \<longrightarrow>
        codegen_generate_call gen ctx (AST_CALL (AST_IDENTIFIER op_name) [a, b])
          = (True, ctx\<lparr>output_stream :=
                          Some (out @ ''('' @ ta @ '' '' @ c_operator op_name @ '' '' @ tb @ '')'')\<rparr>))
   \<and> (length args \<noteq> 2 \<and> \<not> (op_name = ''-'' \<and> length args = 1)
        \<and> gen ctx (AST_IDENTIFIER op_name) = (False, c') \<longrightarrow>
        codegen_generate_call gen ctx (AST_CALL (AST_IDENTIFIER op_name) args) = (False, c'))
   \<and> (length args \<noteq> 2 \<and> \<not> (op_name = ''-'' \<and> length args = 1)
        \<and> writes gen (AST_IDENTIFIER op_name) tc \<and> list_all2 (writes gen) args ts \<longrightarrow>
        codegen_generate_call gen ctx (AST_CALL (AST_IDENTIFIER op_name) args)
          = (True, ctx\<lparr>output_stream := Some (out @ tc @ ''('' @ comma_separated ts @ '')'')\<rparr>))
   \<and> (writes gen a ta \<longrightarrow>
        codegen_generate_call gen ctx (AST_CALL (AST_IDENTIFIER ''-'') [a])
          = (True, ctx\<lparr>output_stream := Some (out @ ''(-'' @ ta @ '')'')\<rparr>))"
proof (intro impI conjI)
  assume h: "op_name \<in> set operator_table \<and> output_stream ctx = Some out"
    and w: "writes gen a ta \<and> writes gen b tb"
  from h have op: "op_name \<in> set operator_table" and out: "output_stream ctx = Some out"
    by simp_all
  from w have wa: "writes gen a ta" and wb: "writes gen b tb"
    by simp_all
  have "step_writes (run [fprintf ''('', expression gen a, fprintf ('' '' @ c_operator op_name @ '' ''),
                          expression gen b, fprintf '')''])
          (''('' @ ta @ ('' '' @ c_operator op_name @ '' '') @ tb @ '')'' @ [])"
    by (intro step_writes_run_Cons step_writes_fprintf step_writes_expression wa wb
          step_writes_run_Nil)
  with out have "run [fprintf ''('', expression gen a, fprintf ('' '' @ c_operator op_name @ '' ''),
                      expression gen b, fprintf '')''] ctx
      = (True, ctx\<lparr>output_stream :=
            Some (out @ ''('' @ ta @ ('' '' @ c_operator op_name @ '' '') @ tb @ '')'' @ [])\<rparr>)"
    unfolding step_writes_def by blast
  then show "codegen_generate_call gen ctx (AST_CALL (AST_IDENTIFIER op_name) [a, b])
          = (True, ctx\<lparr>output_stream :=
                          Some (out @ ''('' @ ta @ '' '' @ c_operator op_name @ '' '' @ tb @ '')'')\<rparr>)"
    by (simp only: codegen_generate_call.simps operator_steps_binary [OF op]) simp
next
  assume h: "op_name \<in> set operator_table \<and> output_stream ctx = Some out"
    and n: "length args \<noteq> 2 \<and> \<not> (op_name = ''-'' \<and> length args = 1)
        \<and> gen ctx (AST_IDENTIFIER op_name) = (False, c')"
  from h have op: "op_name \<in> set operator_table"
    by simp
  from n have "codegen_call_steps gen (AST_IDENTIFIER op_name) args
      = regular_call gen (AST_IDENTIFIER op_name) args"
    by (intro operator_steps_other_arity [OF op]) simp_all
  moreover from n have "run (regular_call gen (AST_IDENTIFIER op_name) args) ctx = (False, c')"
    by (simp add: regular_call_def expression_def)
  ultimately show "codegen_generate_call gen ctx (AST_CALL (AST_IDENTIFIER op_name) args) = (False, c')"
    by (simp only: codegen_generate_call.simps)
next
  assume h: "op_name \<in> set operator_table \<and> output_stream ctx = Some out"
    and n: "length args \<noteq> 2 \<and> \<not> (op_name = ''-'' \<and> length args = 1)
        \<and> writes gen (AST_IDENTIFIER op_name) tc \<and> list_all2 (writes gen) args ts"
  from h have op: "op_name \<in> set operator_table" and out: "output_stream ctx = Some out"
    by simp_all
  from n have steps: "codegen_call_steps gen (AST_IDENTIFIER op_name) args
      = regular_call gen (AST_IDENTIFIER op_name) args"
    by (intro operator_steps_other_arity [OF op]) simp_all
  from n have "step_writes (run (regular_call gen (AST_IDENTIFIER op_name) args))
      (tc @ ''('' @ comma_separated ts @ '')'')"
    by (intro regular_call_written) simp_all
  with out have "run (regular_call gen (AST_IDENTIFIER op_name) args) ctx
      = (True, ctx\<lparr>output_stream := Some (out @ tc @ ''('' @ comma_separated ts @ '')'')\<rparr>)"
    unfolding step_writes_def by blast
  with steps show "codegen_generate_call gen ctx (AST_CALL (AST_IDENTIFIER op_name) args)
          = (True, ctx\<lparr>output_stream := Some (out @ tc @ ''('' @ comma_separated ts @ '')'')\<rparr>)"
    by (simp only: codegen_generate_call.simps)
next
  assume h: "op_name \<in> set operator_table \<and> output_stream ctx = Some out"
    and wa: "writes gen a ta"
  from h have out: "output_stream ctx = Some out"
    by simp
  have "step_writes (run [fprintf ''(-'', expression gen a, fprintf '')''])
          (''(-'' @ ta @ '')'' @ [])"
    by (intro step_writes_run_Cons step_writes_fprintf step_writes_expression wa
          step_writes_run_Nil)
  with out have "run [fprintf ''(-'', expression gen a, fprintf '')''] ctx
      = (True, ctx\<lparr>output_stream := Some (out @ ''(-'' @ ta @ '')'' @ [])\<rparr>)"
    unfolding step_writes_def by blast
  then show "codegen_generate_call gen ctx (AST_CALL (AST_IDENTIFIER ''-'') [a])
          = (True, ctx\<lparr>output_stream := Some (out @ ''(-'' @ ta @ '')'')\<rparr>)"
    by (simp only: codegen_generate_call.simps operator_steps_unary_minus) simp
qed

text \<open>
  Instances. With the expression generator of the source, \<open>(= 1 2)\<close> on an empty stream
  gives \<open>(1 == 2)\<close> and \<open>(- 1)\<close> gives \<open>(-1)\<close>; \<open>(= 1)\<close> fails with nothing written,
  because that generator, whose identifier case the source elides, rejects the callee.
  With a generator that also writes an identifier as its name, \<open>(+ 1 2 3)\<close> gives the
  regular call \<open>+(1, 2, 3)\<close>.
\<close>

theorem codegen_generate_call_operators_witness:
  "''='' \<in> set operator_table \<and> ''+'' \<in> set operator_table
   \<and> output_stream open_context = Some []
   \<and> writes codegen_generate_expression (AST_INTEGER_LITERAL 1) ''1''
   \<and> writes codegen_generate_expression (AST_INTEGER_LITERAL 2) ''2''
   \<and> codegen_generate_call codegen_generate_expression open_context
         (AST_CALL (AST_IDENTIFIER ''='') [AST_INTEGER_LITERAL 1, AST_INTEGER_LITERAL 2])
       = (True, open_context\<lparr>output_stream := Some ''(1 == 2)''\<rparr>)
   \<and> codegen_generate_call codegen_generate_expression open_context
         (AST_CALL (AST_IDENTIFIER ''-'') [AST_INTEGER_LITERAL 1])
       = (True, open_context\<lparr>output_stream := Some ''(-1)''\<rparr>)
   \<and> codegen_generate_expression open_context (AST_IDENTIFIER ''='') = (False, open_context)
   \<and> codegen_generate_call codegen_generate_expression open_context
         (AST_CALL (AST_IDENTIFIER ''='') [AST_INTEGER_LITERAL 1])
       = (False, open_context)
   \<and> writes (\<lambda>c n. case n of AST_IDENTIFIER name \<Rightarrow> fprintf name c
                             | _ \<Rightarrow> codegen_generate_expression c n)
        (AST_IDENTIFIER ''+'') ''+''
   \<and> list_all2 (writes (\<lambda>c n. case n of AST_IDENTIFIER name \<Rightarrow> fprintf name c
                                        | _ \<Rightarrow> codegen_generate_expression c n))
        [AST_INTEGER_LITERAL 1, AST_INTEGER_LITERAL 2, AST_INTEGER_LITERAL 3] [''1'', ''2'', ''3'']
   \<and> codegen_generate_call
         (\<lambda>c n. case n of AST_IDENTIFIER name \<Rightarrow> fprintf name c
                         | _ \<Rightarrow> codegen_generate_expression c n)
         open_context
         (AST_CALL (AST_IDENTIFIER ''+'')
            [AST_INTEGER_LITERAL 1, AST_INTEGER_LITERAL 2, AST_INTEGER_LITERAL 3])
       = (True, open_context\<lparr>output_stream := Some ''+(1, 2, 3)''\<rparr>)"
proof -
  let ?named = "\<lambda>c n. case n of AST_IDENTIFIER name \<Rightarrow> fprintf name c
                              | _ \<Rightarrow> codegen_generate_expression c n"
  let ?args = "[AST_INTEGER_LITERAL 1, AST_INTEGER_LITERAL 2, AST_INTEGER_LITERAL 3]"
  have op: "''='' \<in> set operator_table" and op': "''+'' \<in> set operator_table"
    by (simp_all add: operator_table_def)
  have out: "output_stream open_context = Some []"
    by (simp add: open_context_def)
  have w1: "writes codegen_generate_expression (AST_INTEGER_LITERAL 1) ''1''"
    by (simp add: writes_def gen_int_1 emit_def)
  have w2: "writes codegen_generate_expression (AST_INTEGER_LITERAL 2) ''2''"
    by (simp add: writes_def gen_int_2 emit_def)
  have rej: "codegen_generate_expression open_context (AST_IDENTIFIER ''='') = (False, open_context)"
    by (simp add: codegen_generate_expression_def)
  have wc: "writes ?named (AST_IDENTIFIER ''+'') ''+''"
    by (simp add: writes_def fprintf_def emit_def)
  have wn: "list_all2 (writes ?named) ?args [''1'', ''2'', ''3'']"
    by (simp add: writes_def codegen_generate_expression_def fprintf_def printf_ld_def
          decimal.simps emit_def)
  have n1: "length [AST_INTEGER_LITERAL 1] \<noteq> 2
      \<and> \<not> (''='' = ''-'' \<and> length [AST_INTEGER_LITERAL 1] = 1)"
    by simp
  have n3: "length ?args \<noteq> 2 \<and> \<not> (''+'' = ''-'' \<and> length ?args = 1)"
    by simp
  note t = codegen_generate_call_operators
    [of "''=''" open_context "[]" codegen_generate_expression
        "AST_INTEGER_LITERAL 1" "''1''" "AST_INTEGER_LITERAL 2" "''2''"
        "[AST_INTEGER_LITERAL 1]" open_context]
  note u = codegen_generate_call_operators
    [of "''+''" open_context "[]" ?named _ _ _ _ ?args _ "''+''" "[''1'', ''2'', ''3'']"]
  from t op out w1 w2
  have "codegen_generate_call codegen_generate_expression open_context
         (AST_CALL (AST_IDENTIFIER ''='') [AST_INTEGER_LITERAL 1, AST_INTEGER_LITERAL 2])
       = (True, open_context\<lparr>output_stream :=
            Some ([] @ ''('' @ ''1'' @ '' '' @ c_operator ''='' @ '' '' @ ''2'' @ '')'')\<rparr>)"
    by blast
  then have r1: "codegen_generate_call codegen_generate_expression open_context
         (AST_CALL (AST_IDENTIFIER ''='') [AST_INTEGER_LITERAL 1, AST_INTEGER_LITERAL 2])
       = (True, open_context\<lparr>output_stream := Some ''(1 == 2)''\<rparr>)"
    by (simp add: c_operator_def)
  from t op out w1
  have "codegen_generate_call codegen_generate_expression open_context
         (AST_CALL (AST_IDENTIFIER ''-'') [AST_INTEGER_LITERAL 1])
       = (True, open_context\<lparr>output_stream := Some ([] @ ''(-'' @ ''1'' @ '')'')\<rparr>)"
    by blast
  then have r2: "codegen_generate_call codegen_generate_expression open_context
         (AST_CALL (AST_IDENTIFIER ''-'') [AST_INTEGER_LITERAL 1])
       = (True, open_context\<lparr>output_stream := Some ''(-1)''\<rparr>)"
    by simp
  from t op out n1 rej
  have r3: "codegen_generate_call codegen_generate_expression open_context
         (AST_CALL (AST_IDENTIFIER ''='') [AST_INTEGER_LITERAL 1])
       = (False, open_context)"
    by blast
  from u op' out n3 wc wn
  have "codegen_generate_call ?named open_context (AST_CALL (AST_IDENTIFIER ''+'') ?args)
       = (True, open_context\<lparr>output_stream :=
            Some ([] @ ''+'' @ ''('' @ comma_separated [''1'', ''2'', ''3''] @ '')'')\<rparr>)"
    by blast
  then have r4: "codegen_generate_call ?named open_context (AST_CALL (AST_IDENTIFIER ''+'') ?args)
       = (True, open_context\<lparr>output_stream := Some ''+(1, 2, 3)''\<rparr>)"
    by simp
  from op op' out w1 w2 r1 r2 rej r3 wc wn r4 show ?thesis
    by blast
qed

section \<open>Failure of call generation\<close>




section \<open>Forward-mode automatic differentiation\<close>

text \<open>
  Claim C8. For a call of \<open>autodiff-forward\<close> with exactly two arguments, for which the
  expression generator writes \<open>tf\<close> and \<open>tx\<close>, on an open stream holding \<open>out\<close>,
  \<open>codegen_generate_call\<close> returns true and the stream holds \<open>out\<close> followed by one
  statement expression: it casts \<open>tf\<close>, the first argument, to the function pointer
  \<open>wrapper_func\<close>, builds \<open>vec_input\<close> with \<open>vector_f_create_from_array\<close> from the
  one-element array \<open>{tx}\<close> holding the second argument and the length 1, calls
  \<open>compute_gradient_autodiff(arena, wrapper_func, vec_input)\<close> and takes element 0 of
  its result with \<open>vector_f_get\<close> as the value of the expression.
\<close>

theorem codegen_generate_call_autodiff_forward:
  "writes gen f tf \<and> writes gen x tx \<and> output_stream ctx = Some out \<longrightarrow>
   codegen_generate_call gen ctx (AST_CALL (AST_IDENTIFIER ''autodiff-forward'') [f, x])
     = (True, ctx\<lparr>output_stream := Some (out
          @ ''({ float (*wrapper_func)(VectorF*) = (float (*)(VectorF*))'' @ tf
          @ ''; VectorF* vec_input = vector_f_create_from_array(arena, (float[]){'' @ tx
          @ ''}, 1); vector_f_get(compute_gradient_autodiff(arena, wrapper_func, vec_input), 0); })'')\<rparr>)"
proof
  assume h: "writes gen f tf \<and> writes gen x tx \<and> output_stream ctx = Some out"
  then have wf: "writes gen f tf" and wx: "writes gen x tx" and out: "output_stream ctx = Some out"
    by simp_all
  let ?steps = "[fprintf ''({ float (*wrapper_func)(VectorF*) = (float (*)(VectorF*))'',
      expression gen f, fprintf ''; '',
      fprintf ''VectorF* vec_input = vector_f_create_from_array(arena, (float[]){'',
      expression gen x, fprintf ''}, 1); '',
      fprintf ''vector_f_get(compute_gradient_autodiff(arena, wrapper_func, vec_input), 0); })'']"
  have "step_writes (run ?steps)
      (''({ float (*wrapper_func)(VectorF*) = (float (*)(VectorF*))'' @ tf @ ''; ''
       @ ''VectorF* vec_input = vector_f_create_from_array(arena, (float[]){'' @ tx @ ''}, 1); ''
       @ ''vector_f_get(compute_gradient_autodiff(arena, wrapper_func, vec_input), 0); })'' @ [])"
    by (intro step_writes_run_Cons step_writes_fprintf step_writes_expression wf wx
          step_writes_run_Nil)
  with out have "run ?steps ctx = (True, ctx\<lparr>output_stream := Some (out
       @ ''({ float (*wrapper_func)(VectorF*) = (float (*)(VectorF*))'' @ tf @ ''; ''
       @ ''VectorF* vec_input = vector_f_create_from_array(arena, (float[]){'' @ tx @ ''}, 1); ''
       @ ''vector_f_get(compute_gradient_autodiff(arena, wrapper_func, vec_input), 0); })'' @ [])\<rparr>)"
    unfolding step_writes_def by blast
  then show "codegen_generate_call gen ctx (AST_CALL (AST_IDENTIFIER ''autodiff-forward'') [f, x])
     = (True, ctx\<lparr>output_stream := Some (out
          @ ''({ float (*wrapper_func)(VectorF*) = (float (*)(VectorF*))'' @ tf
          @ ''; VectorF* vec_input = vector_f_create_from_array(arena, (float[]){'' @ tx
          @ ''}, 1); vector_f_get(compute_gradient_autodiff(arena, wrapper_func, vec_input), 0); })'')\<rparr>)"
    by (simp only: codegen_generate_call.simps autodiff_forward_steps) simp
qed

text \<open>
  Instances. With the expression generator of the source and the literals \<open>1\<close> and
  \<open>3.000000\<close> as arguments; and, for \<open>(autodiff-forward f 3.0)\<close>, with a generator that
  also writes an identifier as its name, the identifier case being elided in the source.
\<close>

theorem codegen_generate_call_autodiff_forward_witness:
  "output_stream open_context = Some []
   \<and> writes codegen_generate_expression (AST_INTEGER_LITERAL 1) ''1''
   \<and> writes codegen_generate_expression (AST_FLOAT_LITERAL ''3.000000'') ''3.000000''
   \<and> codegen_generate_call codegen_generate_expression open_context
       (AST_CALL (AST_IDENTIFIER ''autodiff-forward'')
          [AST_INTEGER_LITERAL 1, AST_FLOAT_LITERAL ''3.000000''])
     = (True, open_context\<lparr>output_stream := Some ''({ float (*wrapper_func)(VectorF*) = (float (*)(VectorF*))1; VectorF* vec_input = vector_f_create_from_array(arena, (float[]){3.000000}, 1); vector_f_get(compute_gradient_autodiff(arena, wrapper_func, vec_input), 0); })''\<rparr>)
   \<and> writes (\<lambda>c n. case n of AST_IDENTIFIER name \<Rightarrow> fprintf name c
                             | _ \<Rightarrow> codegen_generate_expression c n)
        (AST_IDENTIFIER ''f'') ''f''
   \<and> writes (\<lambda>c n. case n of AST_IDENTIFIER name \<Rightarrow> fprintf name c
                             | _ \<Rightarrow> codegen_generate_expression c n)
        (AST_FLOAT_LITERAL ''3.000000'') ''3.000000''
   \<and> codegen_generate_call
       (\<lambda>c n. case n of AST_IDENTIFIER name \<Rightarrow> fprintf name c
                       | _ \<Rightarrow> codegen_generate_expression c n)
       open_context
       (AST_CALL (AST_IDENTIFIER ''autodiff-forward'')
          [AST_IDENTIFIER ''f'', AST_FLOAT_LITERAL ''3.000000''])
     = (True, open_context\<lparr>output_stream := Some ''({ float (*wrapper_func)(VectorF*) = (float (*)(VectorF*))f; VectorF* vec_input = vector_f_create_from_array(arena, (float[]){3.000000}, 1); vector_f_get(compute_gradient_autodiff(arena, wrapper_func, vec_input), 0); })''\<rparr>)"
proof -
  let ?named = "\<lambda>c n. case n of AST_IDENTIFIER name \<Rightarrow> fprintf name c
                              | _ \<Rightarrow> codegen_generate_expression c n"
  have out: "output_stream open_context = Some []"
    by (simp add: open_context_def)
  have w1: "writes codegen_generate_expression (AST_INTEGER_LITERAL 1) ''1''"
    by (simp add: writes_def gen_int_1 emit_def)
  have w2: "writes codegen_generate_expression (AST_FLOAT_LITERAL ''3.000000'') ''3.000000''"
    by (simp add: writes_def gen_float emit_def)
  have v1: "writes ?named (AST_IDENTIFIER ''f'') ''f''"
    by (simp add: writes_def fprintf_def emit_def)
  have v2: "writes ?named (AST_FLOAT_LITERAL ''3.000000'') ''3.000000''"
    by (simp add: writes_def gen_float emit_def)
  from codegen_generate_call_autodiff_forward
    [of codegen_generate_expression "AST_INTEGER_LITERAL 1" "''1''"
        "AST_FLOAT_LITERAL ''3.000000''" "''3.000000''" open_context "[]"] w1 w2 out
  have "codegen_generate_call codegen_generate_expression open_context
       (AST_CALL (AST_IDENTIFIER ''autodiff-forward'')
          [AST_INTEGER_LITERAL 1, AST_FLOAT_LITERAL ''3.000000''])
     = (True, open_context\<lparr>output_stream := Some ([]
          @ ''({ float (*wrapper_func)(VectorF*) = (float (*)(VectorF*))'' @ ''1''
          @ ''; VectorF* vec_input = vector_f_create_from_array(arena, (float[]){'' @ ''3.000000''
          @ ''}, 1); vector_f_get(compute_gradient_autodiff(arena, wrapper_func, vec_input), 0); })'')\<rparr>)"
    by blast
  then have r1: "codegen_generate_call codegen_generate_expression open_context
       (AST_CALL (AST_IDENTIFIER ''autodiff-forward'')
          [AST_INTEGER_LITERAL 1, AST_FLOAT_LITERAL ''3.000000''])
     = (True, open_context\<lparr>output_stream := Some ''({ float (*wrapper_func)(VectorF*) = (float (*)(VectorF*))1; VectorF* vec_input = vector_f_create_from_array(arena, (float[]){3.000000}, 1); vector_f_get(compute_gradient_autodiff(arena, wrapper_func, vec_input), 0); })''\<rparr>)"
    by simp
  from codegen_generate_call_autodiff_forward
    [of ?named "AST_IDENTIFIER ''f''" "''f''"
        "AST_FLOAT_LITERAL ''3.000000''" "''3.000000''" open_context "[]"] v1 v2 out
  have "codegen_generate_call ?named open_context
       (AST_CALL (AST_IDENTIFIER ''autodiff-forward'')
          [AST_IDENTIFIER ''f'', AST_FLOAT_LITERAL ''3.000000''])
     = (True, open_context\<lparr>output_stream := Some ([]
          @ ''({ float (*wrapper_func)(VectorF*) = (float (*)(VectorF*))'' @ ''f''
          @ ''; VectorF* vec_input = vector_f_create_from_array(arena, (float[]){'' @ ''3.000000''
          @ ''}, 1); vector_f_get(compute_gradient_autodiff(arena, wrapper_func, vec_input), 0); })'')\<rparr>)"
    by blast
  then have r2: "codegen_generate_call ?named open_context
       (AST_CALL (AST_IDENTIFIER ''autodiff-forward'')
          [AST_IDENTIFIER ''f'', AST_FLOAT_LITERAL ''3.000000''])
     = (True, open_context\<lparr>output_stream := Some ''({ float (*wrapper_func)(VectorF*) = (float (*)(VectorF*))f; VectorF* vec_input = vector_f_create_from_array(arena, (float[]){3.000000}, 1); vector_f_get(compute_gradient_autodiff(arena, wrapper_func, vec_input), 0); })''\<rparr>)"
    by simp
  from out w1 w2 r1 v1 v2 r2 show ?thesis
    by blast
qed

section \<open>Determinism of call generation\<close>

text \<open>
  Claim C7. Generation is a function of the node and the context, so equal inputs give
  equal results; beyond that, the bytes emitted do not depend on what the stream
  already holds. If the expression generator is independent of the stream, then
  generating a call on a context whose stream has any text \<open>pre\<close> in front gives the
  same success flag and the same context with \<open>pre\<close> in front: two runs on the same
  node and the same context state emit byte-identical text, whatever was written
  before. The same holds for \<open>codegen_context_write_indent\<close>, which writes four spaces
  per indentation level.
\<close>

theorem code_generation_deterministic:
  "((\<forall>pre c n. gen (prepend pre c) n = (fst (gen c n), prepend pre (snd (gen c n))))
      \<longrightarrow> codegen_generate_call gen (prepend pre ctx) (AST_CALL callee args)
          = (fst (codegen_generate_call gen ctx (AST_CALL callee args)),
             prepend pre (snd (codegen_generate_call gen ctx (AST_CALL callee args)))))
   \<and> codegen_context_write_indent (prepend pre ctx)
       = map_option (prepend pre) (codegen_context_write_indent ctx)"
proof (intro conjI impI)
  assume g: "\<forall>pre c n. gen (prepend pre c) n = (fst (gen c n), prepend pre (snd (gen c n)))"
  have "list_all stream_independent (codegen_call_steps gen callee args)"
    by (rule codegen_call_steps_all)
       (rule stream_independent_fprintf stream_independent_expression [OF g])+
  then have "stream_independent (run (codegen_call_steps gen callee args))"
    by (rule run_stream_independent)
  then show "codegen_generate_call gen (prepend pre ctx) (AST_CALL callee args)
          = (fst (codegen_generate_call gen ctx (AST_CALL callee args)),
             prepend pre (snd (codegen_generate_call gen ctx (AST_CALL callee args))))"
    by (simp add: stream_independent_def codegen_generate_call.simps)
next
  show "codegen_context_write_indent (prepend pre ctx)
       = map_option (prepend pre) (codegen_context_write_indent ctx)"
    by (cases "output_stream ctx")
       (simp_all add: codegen_context_write_indent_def prepend_def write_indent_loop_prepend)
qed

theorem code_generation_deterministic_witness:
  "(\<forall>pre c n. codegen_generate_expression (prepend pre c) n
       = (fst (codegen_generate_expression c n), prepend pre (snd (codegen_generate_expression c n))))
   \<and> codegen_generate_call codegen_generate_expression (prepend ''(1 + 2)'' open_context)
        (AST_CALL (AST_IDENTIFIER ''+'') [AST_INTEGER_LITERAL 1, AST_INTEGER_LITERAL 2])
     = (fst (codegen_generate_call codegen_generate_expression open_context
               (AST_CALL (AST_IDENTIFIER ''+'') [AST_INTEGER_LITERAL 1, AST_INTEGER_LITERAL 2])),
        prepend ''(1 + 2)''
          (snd (codegen_generate_call codegen_generate_expression open_context
                  (AST_CALL (AST_IDENTIFIER ''+'') [AST_INTEGER_LITERAL 1, AST_INTEGER_LITERAL 2]))))
   \<and> codegen_generate_call codegen_generate_expression open_context
        (AST_CALL (AST_IDENTIFIER ''+'') [AST_INTEGER_LITERAL 1, AST_INTEGER_LITERAL 2])
     = (True, emit ''(1 + 2)'' open_context)"
proof -
  have g: "\<forall>pre c n. codegen_generate_expression (prepend pre c) n
       = (fst (codegen_generate_expression c n), prepend pre (snd (codegen_generate_expression c n)))"
    using codegen_generate_expression_stream_independent by blast
  note t = code_generation_deterministic
    [of codegen_generate_expression "''(1 + 2)''" open_context "AST_IDENTIFIER ''+''"
        "[AST_INTEGER_LITERAL 1, AST_INTEGER_LITERAL 2]"]
  from t g have r: "codegen_generate_call codegen_generate_expression (prepend ''(1 + 2)'' open_context)
        (AST_CALL (AST_IDENTIFIER ''+'') [AST_INTEGER_LITERAL 1, AST_INTEGER_LITERAL 2])
     = (fst (codegen_generate_call codegen_generate_expression open_context
               (AST_CALL (AST_IDENTIFIER ''+'') [AST_INTEGER_LITERAL 1, AST_INTEGER_LITERAL 2])),
        prepend ''(1 + 2)''
          (snd (codegen_generate_call codegen_generate_expression open_context
                  (AST_CALL (AST_IDENTIFIER ''+'') [AST_INTEGER_LITERAL 1, AST_INTEGER_LITERAL 2]))))"
    by blast
  have v: "codegen_generate_call codegen_generate_expression open_context
        (AST_CALL (AST_IDENTIFIER ''+'') [AST_INTEGER_LITERAL 1, AST_INTEGER_LITERAL 2])
     = (True, emit ''(1 + 2)'' open_context)"
    by (simp add: codegen_generate_call.simps operator_steps_binary operator_table_def
          c_operator_def fprintf_def expression_def gen_int_1 gen_int_2 emit_emit)
  from g r v show ?thesis by blast
qed

section \<open>The driver: stages and exit codes\<close>

lemma parse_options_special:
  "find (\<lambda>arg. \<not> mode_flag arg) (takeWhile is_option args) = Some arg \<Longrightarrow>
   parse_options args v d = Exit (if help_flag arg then 0 else 1)"
proof (induction args arbitrary: v d)
  case Nil
  then show ?case by simp
next
  case (Cons a args)
  show ?case
  proof (cases "is_option a")
    case False
    with Cons.prems show ?thesis by simp
  next
    case opt: True
    show ?thesis
    proof (cases "mode_flag a")
      case True
      with opt Cons.prems have "find (\<lambda>arg. \<not> mode_flag arg) (takeWhile is_option args) = Some arg"
        by simp
      from Cons.IH [OF this] opt True show ?thesis
        by (auto simp: is_option_def mode_flag_def)
    next
      case False
      with opt Cons.prems have "arg = a" by simp
      with opt False show ?thesis
        by (auto simp: is_option_def mode_flag_def help_flag_def)
    qed
  qed
qed

lemma parse_options_plain:
  "find (\<lambda>arg. \<not> mode_flag arg) (takeWhile is_option args) = None \<Longrightarrow>
   \<exists>v' d'. parse_options args v d = Proceed v' d' (dropWhile is_option args)"
proof (induction args arbitrary: v d)
  case Nil
  then show ?case by simp
next
  case (Cons a args)
  show ?case
  proof (cases "is_option a")
    case False
    then show ?thesis by (simp add: is_option_def)
  next
    case opt: True
    with Cons.prems have m: "mode_flag a"
      and rest: "find (\<lambda>arg. \<not> mode_flag arg) (takeWhile is_option args) = None"
      by (auto split: if_splits)
    from m consider "a = ''-v'' \<or> a = ''--verbose''" | "a = ''-d'' \<or> a = ''--debug''"
      by (auto simp: mode_flag_def)
    then show ?thesis
    proof cases
      case 1
      from Cons.IH [OF rest, of True d] 1 opt show ?thesis
        by (auto simp: is_option_def)
    next
      case 2
      from Cons.IH [OF rest, of True True] 2 opt show ?thesis
        by (auto simp: is_option_def)
    qed
  qed
qed

lemma main_special:
  "first_other_option argv = Some arg \<Longrightarrow>
   main argv oc = (if help_flag arg then 0 else 1, [])"
  using parse_options_special [of "drop 1 argv" arg False False]
  by (simp add: main_def first_other_option_def options_def)

lemma main_no_operand:
  assumes "first_other_option argv = None" and "operands argv = []"
  shows "main argv oc = (1, [])"
proof -
  from assms(1) obtain v d where p: "parse_options (drop 1 argv) False False = Proceed v d (operands argv)"
    using parse_options_plain [of "drop 1 argv" False False]
    by (auto simp: first_other_option_def options_def operands_def)
  show ?thesis
    unfolding main_def p assms(2) by simp
qed

lemma main_compile_exit:
  assumes "first_other_option argv = None" and "operands argv \<noteq> []"
  shows "fst (main argv oc) =
     (if read_file_result oc \<and> \<not> creation_failed oc \<and> parser_parse_program_result oc
         \<and> codegen_generate_result oc
         \<and> (output_given argv \<or> codegen_compile_and_execute_result oc = 0)
      then 0 else 1)"
proof -
  from assms(1) obtain v d where p: "parse_options (drop 1 argv) False False = Proceed v d (operands argv)"
    using parse_options_plain [of "drop 1 argv" False False]
    by (auto simp: first_other_option_def options_def operands_def)
  from assms(2) obtain input_file others where o: "operands argv = input_file # others"
    by (cases "operands argv") auto
  have g: "output_given argv = (others \<noteq> [])"
    by (cases others) (simp_all add: output_given_def o)
  show ?thesis
    unfolding main_def p o
    by (cases others) (simp_all add: g creation_failed_def Let_def)
qed

lemma main_compile_calls:
  assumes "first_other_option argv = None" and "operands argv \<noteq> []"
    and "CALL_codegen_generate \<in> set (snd (main argv oc))"
  shows "filter (\<lambda>c. stage_of c \<noteq> None) (snd (main argv oc))
     = [CALL_lexer_create, CALL_parser_create, CALL_parser_parse_program,
        CALL_codegen_context_create, CALL_codegen_generate]"
proof -
  from assms(1) obtain v d where p: "parse_options (drop 1 argv) False False = Proceed v d (operands argv)"
    using parse_options_plain [of "drop 1 argv" False False]
    by (auto simp: first_other_option_def options_def operands_def)
  from assms(2) obtain input_file others where o: "operands argv = input_file # others"
    by (cases "operands argv") auto
  from assms(3) show ?thesis
    unfolding main_def p o
    by (cases others) (simp_all add: Let_def split: if_splits)
qed

lemma pipeline_stages:
  "s \<in> set (pipeline calls) \<Longrightarrow> s = Lexer \<or> s = Parser \<or> s = CodeGenerator"
proof -
  assume "s \<in> set (pipeline calls)"
  then obtain c where "stage_of c = Some s"
    by (auto simp: pipeline_def List.map_filter_def)
  then show ?thesis by (cases c) simp_all
qed

lemma pipeline_filter:
  "pipeline calls = remdups_adj (map (\<lambda>c. the (stage_of c)) (filter (\<lambda>c. stage_of c \<noteq> None) calls))"
  by (simp add: pipeline_def List.map_filter_def comp_def)

text \<open>
  Claim C3 as stated fails. A compilation in which every call succeeds, with an input
  and an output file on the command line, exits with 0, and the stages it has run are
  the lexer, the parser and the code generator: \<open>main\<close> runs neither a binding resolver
  nor a type inferencer before code generation.
\<close>

theorem main_skips_resolver_and_inference:
  "fst (main [''eshkol'', ''program.esk'', ''program.c''] all_succeed) = 0
   \<and> pipeline (snd (main [''eshkol'', ''program.esk'', ''program.c''] all_succeed))
       = [Lexer, Parser, CodeGenerator]
   \<and> pipeline (snd (main [''eshkol'', ''program.esk'', ''program.c''] all_succeed))
       \<noteq> specified_pipeline"
  by (simp add: main_def all_succeed_def pipeline_def List.map_filter_def specified_pipeline_def)

text \<open>
  Claim C3, amended. Whenever \<open>main\<close> reaches code generation, the pipeline calls it has
  made are \<open>lexer_create\<close>, \<open>parser_create\<close>, \<open>parser_parse_program\<close>,
  \<open>codegen_context_create\<close> and \<open>codegen_generate\<close>, in this order: lexer, parser, then
  code generation on the parsed AST. No run of \<open>main\<close> has a binding resolution or a
  type inference stage. The refactored \<open>codegen_context_create\<close> stores the type context
  that its caller passes, NULL included, and \<open>codegen_context_get_type_context\<close>
  returns it.
\<close>

theorem main_pipeline:
  "(CALL_codegen_generate \<in> set (snd (main argv oc))
      \<longrightarrow> filter (\<lambda>c. stage_of c \<noteq> None) (snd (main argv oc))
            = [CALL_lexer_create, CALL_parser_create, CALL_parser_parse_program,
               CALL_codegen_context_create, CALL_codegen_generate]
          \<and> pipeline (snd (main argv oc)) = [Lexer, Parser, CodeGenerator])
   \<and> BindingResolver \<notin> set (pipeline (snd (main argv oc)))
   \<and> TypeInferencer \<notin> set (pipeline (snd (main argv oc)))
   \<and> (codegen_context_create a d t mem = Some c \<longrightarrow> codegen_context_get_type_context c = t)"
proof (intro conjI impI)
  assume g: "CALL_codegen_generate \<in> set (snd (main argv oc))"
  have n: "first_other_option argv = None"
  proof (cases "first_other_option argv")
    case (Some arg)
    with g show ?thesis by (simp add: main_special)
  qed simp
  have o: "operands argv \<noteq> []"
  proof
    assume "operands argv = []"
    with n g show False by (simp add: main_no_operand)
  qed
  show f: "filter (\<lambda>c. stage_of c \<noteq> None) (snd (main argv oc))
            = [CALL_lexer_create, CALL_parser_create, CALL_parser_parse_program,
               CALL_codegen_context_create, CALL_codegen_generate]"
    by (rule main_compile_calls [OF n o g])
  show "pipeline (snd (main argv oc)) = [Lexer, Parser, CodeGenerator]"
    unfolding pipeline_filter f by simp
next
  show "BindingResolver \<notin> set (pipeline (snd (main argv oc)))"
    using pipeline_stages [of BindingResolver] by auto
next
  show "TypeInferencer \<notin> set (pipeline (snd (main argv oc)))"
    using pipeline_stages [of TypeInferencer] by auto
next
  assume "codegen_context_create a d t mem = Some c"
  then show "codegen_context_get_type_context c = t"
    by (auto simp: codegen_context_create_def codegen_context_get_type_context_def split: if_splits)
qed

theorem main_pipeline_witness:
  "CALL_codegen_generate \<in> set (snd (main [''eshkol'', ''-v'', ''program.esk''] all_succeed))
   \<and> filter (\<lambda>c. stage_of c \<noteq> None) (snd (main [''eshkol'', ''-v'', ''program.esk''] all_succeed))
       = [CALL_lexer_create, CALL_parser_create, CALL_parser_parse_program,
          CALL_codegen_context_create, CALL_codegen_generate]
   \<and> pipeline (snd (main [''eshkol'', ''-v'', ''program.esk''] all_succeed))
       = [Lexer, Parser, CodeGenerator]
   \<and> codegen_context_create 1 2 (Some 3) True
       = Some \<lparr> arena = Some 1, diagnostics = Some 2, type_context = Some 3,
                output_stream = None, indent_level = 0, in_function = False, temp_dir = None \<rparr>
   \<and> codegen_context_get_type_context
        \<lparr> arena = Some 1, diagnostics = Some 2, type_context = Some 3,
          output_stream = None, indent_level = 0, in_function = False, temp_dir = None \<rparr>
       = Some 3"
proof -
  have g: "CALL_codegen_generate \<in> set (snd (main [''eshkol'', ''-v'', ''program.esk''] all_succeed))"
    by (simp add: main_def all_succeed_def)
  have k: "codegen_context_create 1 2 (Some 3) True
       = Some \<lparr> arena = Some 1, diagnostics = Some 2, type_context = Some 3,
                output_stream = None, indent_level = 0, in_function = False, temp_dir = None \<rparr>"
    by (simp add: codegen_context_create_def)
  note t = main_pipeline
    [of "[''eshkol'', ''-v'', ''program.esk'']" all_succeed 1 2 "Some 3" True
        "\<lparr> arena = Some 1, diagnostics = Some 2, type_context = Some 3,
           output_stream = None, indent_level = 0, in_function = False, temp_dir = None \<rparr>"]
  from t g k show ?thesis by blast
qed

text \<open>
  Claim C4. \<open>main\<close> returns 0 or 1. It returns 1 for an unknown option, for a missing
  input file, when the input file cannot be read, when the creation of the arena, the
  string table, the diagnostic context, the lexer, the parser or the code generator
  context fails, when parsing fails, when C generation fails, and when the host
  compiler run returns non-zero. It returns 0 exactly when help was requested or the
  whole compilation succeeded.
\<close>

theorem main_exit_code:
  "(fst (main argv oc) = 0 \<or> fst (main argv oc) = 1)
   \<and> (unknown_option argv \<longrightarrow> fst (main argv oc) = 1)
   \<and> (missing_input argv \<longrightarrow> fst (main argv oc) = 1)
   \<and> (\<not> help_requested argv
        \<and> (\<not> read_file_result oc \<or> creation_failed oc \<or> \<not> parser_parse_program_result oc
           \<or> \<not> codegen_generate_result oc
           \<or> (\<not> output_given argv \<and> codegen_compile_and_execute_result oc \<noteq> 0))
      \<longrightarrow> fst (main argv oc) = 1)
   \<and> (fst (main argv oc) = 0 \<longleftrightarrow>
        help_requested argv
        \<or> (first_other_option argv = None \<and> operands argv \<noteq> []
           \<and> read_file_result oc \<and> \<not> creation_failed oc \<and> parser_parse_program_result oc
           \<and> codegen_generate_result oc
           \<and> (output_given argv \<or> codegen_compile_and_execute_result oc = 0)))"
proof (cases "first_other_option argv")
  case (Some arg)
  then show ?thesis
    by (simp add: main_special help_requested_def unknown_option_def missing_input_def)
next
  case None
  show ?thesis
  proof (cases "operands argv = []")
    case True
    with None show ?thesis
      by (simp add: main_no_operand help_requested_def unknown_option_def missing_input_def)
  next
    case False
    with None show ?thesis
      by (simp add: main_compile_exit help_requested_def unknown_option_def missing_input_def)
  qed
qed

theorem main_exit_code_witness:
  "unknown_option [''eshkol'', ''-v'', ''-x'', ''program.esk'']
   \<and> fst (main [''eshkol'', ''-v'', ''-x'', ''program.esk''] all_succeed) = 1
   \<and> missing_input [''eshkol'', ''-d'']
   \<and> fst (main [''eshkol'', ''-d''] all_succeed) = 1
   \<and> \<not> help_requested [''eshkol'', ''program.esk'']
   \<and> \<not> output_given [''eshkol'', ''program.esk'']
   \<and> codegen_compile_and_execute_result (all_succeed\<lparr>codegen_compile_and_execute_result := 2\<rparr>) \<noteq> 0
   \<and> fst (main [''eshkol'', ''program.esk'']
             (all_succeed\<lparr>codegen_compile_and_execute_result := 2\<rparr>)) = 1
   \<and> help_requested [''eshkol'', ''--help'']
   \<and> fst (main [''eshkol'', ''--help''] all_succeed) = 0"
proof -
  have u: "unknown_option [''eshkol'', ''-v'', ''-x'', ''program.esk'']"
    by (simp add: unknown_option_def first_other_option_def options_def is_option_def
          mode_flag_def help_flag_def)
  have m: "missing_input [''eshkol'', ''-d'']"
    by (simp add: missing_input_def first_other_option_def options_def operands_def
          is_option_def mode_flag_def)
  have h: "\<not> help_requested [''eshkol'', ''program.esk'']"
    by (simp add: help_requested_def first_other_option_def options_def is_option_def)
  have og: "\<not> output_given [''eshkol'', ''program.esk'']"
    by (simp add: output_given_def operands_def is_option_def)
  have e: "codegen_compile_and_execute_result
             (all_succeed\<lparr>codegen_compile_and_execute_result := 2\<rparr>) \<noteq> 0"
    by simp
  have hr: "help_requested [''eshkol'', ''--help'']"
    by (simp add: help_requested_def first_other_option_def options_def is_option_def
          mode_flag_def help_flag_def)
  from u main_exit_code [of "[''eshkol'', ''-v'', ''-x'', ''program.esk'']" all_succeed]
  have r1: "fst (main [''eshkol'', ''-v'', ''-x'', ''program.esk''] all_succeed) = 1"
    by blast
  from m main_exit_code [of "[''eshkol'', ''-d'']" all_succeed]
  have r2: "fst (main [''eshkol'', ''-d''] all_succeed) = 1"
    by blast
  from h og e main_exit_code [of "[''eshkol'', ''program.esk'']"
                                "all_succeed\<lparr>codegen_compile_and_execute_result := 2\<rparr>"]
  have r3: "fst (main [''eshkol'', ''program.esk'']
             (all_succeed\<lparr>codegen_compile_and_execute_result := 2\<rparr>)) = 1"
    by blast
  from hr main_exit_code [of "[''eshkol'', ''--help'']" all_succeed]
  have r4: "fst (main [''eshkol'', ''--help''] all_succeed) = 0"
    by blast
  from u r1 m r2 h og e r3 hr r4 show ?thesis by blast
qed

section \<open>Number tokens\<close>

lemma is_float_loop_iff: "is_float_loop cs \<longleftrightarrow> CHR ''.'' \<in> set cs"
  by (induction cs) auto

lemma point_not_digit: "\<not> is_digit CHR ''.''"
  by (simp add: is_digit_def)

lemma skip_digits_frame:
  "source (skip_digits lx) = source lx \<and> start (skip_digits lx) = start lx
   \<and> current lx \<le> current (skip_digits lx)"
proof (induction lx rule: skip_digits.induct)
  case (1 lexer)
  show ?case
  proof (cases "is_digit (peek lexer)")
    case True
    with 1 show ?thesis
      by (simp add: skip_digits.simps [of lexer] advance_def)
  next
    case False
    then show ?thesis by (simp add: skip_digits.simps [of lexer])
  qed
qed

lemma skip_digits_bound:
  "current lx \<le> length (source lx) \<Longrightarrow> current (skip_digits lx) \<le> length (source lx)"
proof (induction lx rule: skip_digits.induct)
  case (1 lexer)
  show ?case
  proof (cases "is_digit (peek lexer)")
    case True
    then have "current lexer < length (source lexer)"
      by (auto simp: peek_def is_digit_def split: if_splits)
    with 1 True show ?thesis
      by (simp add: skip_digits.simps [of lexer] advance_def)
  next
    case False
    with 1 show ?thesis by (simp add: skip_digits.simps [of lexer])
  qed
qed

lemma skip_digits_digits:
  "current lx \<le> j \<Longrightarrow> j < current (skip_digits lx) \<Longrightarrow> is_digit (source lx ! j)"
proof (induction lx rule: skip_digits.induct)
  case (1 lexer)
  show ?case
  proof (cases "is_digit (peek lexer)")
    case True
    then have lt: "current lexer < length (source lexer)"
      and d: "is_digit (source lexer ! current lexer)"
      by (auto simp: peek_def is_digit_def split: if_splits)
    show ?thesis
    proof (cases "j = current lexer")
      case True
      with d show ?thesis by simp
    next
      case False
      with "1.prems" have "current (advance lexer) \<le> j" by (simp add: advance_def)
      moreover from "1.prems" True have "j < current (skip_digits (advance lexer))"
        by (simp add: skip_digits.simps [of lexer])
      ultimately have "is_digit (source (advance lexer) ! j)"
        using "1.IH" True by simp
      then show ?thesis by (simp add: advance_def)
    qed
  next
    case False
    with "1.prems" show ?thesis by (simp add: skip_digits.simps [of lexer])
  qed
qed

lemma skip_digits_first:
  "is_digit (peek lx) \<Longrightarrow> current lx < current (skip_digits lx)"
  using skip_digits_frame [of "advance lx"]
  by (simp add: skip_digits.simps [of lx] advance_def)

lemma number_unfold:
  "number strtod strtol lx =
     (let lx1 = skip_digits lx;
          lx2 = (if peek lx1 = CHR ''.'' \<and> is_digit (peek_next lx1)
                 then skip_digits (advance lx1) else lx1)
      in (\<lparr> type = TOKEN_NUMBER, byte_offset = start lx,
            length_bytes = current lx2 - start lx,
            val = (if CHR ''.'' \<in> set (take (current lx2 - start lx) (drop (start lx) (source lx)))
                   then VALUE_FLOATING (strtod (drop (start lx) (source lx)))
                   else VALUE_INTEGER (strtol (drop (start lx) (source lx)) 10)) \<rparr>,
          lx2))"
  by (simp add: number_def Let_def make_token_def is_float_loop_iff skip_digits_frame advance_def)

lemma consumed_point:
  assumes s: "start lx \<le> current lx" and c: "current lx \<le> length (source lx)"
    and lx2: "lx2 = (if peek (skip_digits lx) = CHR ''.'' \<and> is_digit (peek_next (skip_digits lx))
                     then skip_digits (advance (skip_digits lx)) else skip_digits lx)"
    and j: "current lx \<le> j" "j < current lx2" and p: "source lx ! j = CHR ''.''"
  shows "j + 1 < current lx2 \<and> is_digit (source lx ! (j + 1))"
proof -
  let ?lx1 = "skip_digits lx"
  have src1: "source ?lx1 = source lx" and cur1: "current lx \<le> current ?lx1"
    using skip_digits_frame [of lx] by simp_all
  have nd: "\<not> is_digit (source lx ! j)"
    using p point_not_digit by simp
  show ?thesis
  proof (cases "peek ?lx1 = CHR ''.'' \<and> is_digit (peek_next ?lx1)")
    case False
    with lx2 have "lx2 = ?lx1" by simp
    with j have "is_digit (source lx ! j)"
      using skip_digits_digits [of lx j] by simp
    with nd show ?thesis by simp
  next
    case True
    with lx2 have l2: "lx2 = skip_digits (advance ?lx1)" by simp
    from True have d1: "is_digit (source lx ! (current ?lx1 + 1))"
      by (auto simp: peek_next_def src1 is_digit_def split: if_splits)
    from True have "current ?lx1 + 1 < length (source lx)"
      by (auto simp: peek_next_def src1 is_digit_def split: if_splits)
    then have "is_digit (peek (advance ?lx1))"
      using d1 by (simp add: peek_def advance_def src1)
    then have gt: "current ?lx1 + 1 < current lx2"
      using skip_digits_first [of "advance ?lx1"] l2 by (simp add: advance_def)
    have "j = current ?lx1"
    proof (rule ccontr)
      assume ne: "j \<noteq> current ?lx1"
      show False
      proof (cases "j < current ?lx1")
        case True
        with j(1) have "is_digit (source lx ! j)"
          using skip_digits_digits [of lx j] by simp
        with nd show False by simp
      next
        case False
        with ne have "current (advance ?lx1) \<le> j" by (simp add: advance_def)
        with j(2) l2 have "is_digit (source (advance ?lx1) ! j)"
          using skip_digits_digits [of "advance ?lx1" j] by simp
        with nd show False by (simp add: advance_def src1)
      qed
    qed
    with gt d1 show ?thesis by simp
  qed
qed

text \<open>
  Claim C5. The token that \<open>number\<close> returns is a number token whose value is floating,
  converted by \<open>strtod\<close>, if and only if its lexeme contains a decimal point, and is
  otherwise an integer converted by \<open>strtol\<close> in base 10. A decimal point that the
  routine consumed (one at or after the position where it was entered) is immediately
  followed in the lexeme by a digit.
\<close>

theorem number_token:
  "start lx \<le> current lx \<and> current lx \<le> length (source lx)
     \<and> number strtod strtol lx = (tok, lx')
   \<longrightarrow> type tok = TOKEN_NUMBER
     \<and> ((\<exists>d. val tok = VALUE_FLOATING d) \<longleftrightarrow> CHR ''.'' \<in> set (lexeme lx tok))
     \<and> (CHR ''.'' \<in> set (lexeme lx tok)
          \<longrightarrow> val tok = VALUE_FLOATING (strtod (drop (start lx) (source lx))))
     \<and> (CHR ''.'' \<notin> set (lexeme lx tok)
          \<longrightarrow> val tok = VALUE_INTEGER (strtol (drop (start lx) (source lx)) 10))
     \<and> (\<forall>i. current lx - start lx \<le> i \<and> i < length (lexeme lx tok)
              \<and> lexeme lx tok ! i = CHR ''.''
            \<longrightarrow> i + 1 < length (lexeme lx tok) \<and> is_digit (lexeme lx tok ! (i + 1)))"
proof (intro impI)
  assume h: "start lx \<le> current lx \<and> current lx \<le> length (source lx)
     \<and> number strtod strtol lx = (tok, lx')"
  then have s: "start lx \<le> current lx" and c: "current lx \<le> length (source lx)"
    and n: "number strtod strtol lx = (tok, lx')"
    by simp_all
  define lx2 where "lx2 = (if peek (skip_digits lx) = CHR ''.'' \<and> is_digit (peek_next (skip_digits lx))
                     then skip_digits (advance (skip_digits lx)) else skip_digits lx)"
  have src1: "source (skip_digits lx) = source lx" and cur1: "current lx \<le> current (skip_digits lx)"
    and b1: "current (skip_digits lx) \<le> length (source lx)"
    using skip_digits_frame [of lx] skip_digits_bound [OF c] by simp_all
  have cur2: "current lx \<le> current lx2"
    using cur1 skip_digits_frame [of "advance (skip_digits lx)"]
    by (auto simp: lx2_def advance_def)
  have b2: "current lx2 \<le> length (source lx)"
  proof (cases "peek (skip_digits lx) = CHR ''.'' \<and> is_digit (peek_next (skip_digits lx))")
    case True
    then have "current (skip_digits lx) + 1 < length (source lx)"
      by (auto simp: peek_next_def src1 is_digit_def split: if_splits)
    then have "current (advance (skip_digits lx)) \<le> length (source (advance (skip_digits lx)))"
      by (simp add: advance_def src1)
    from skip_digits_bound [OF this] True show ?thesis
      by (simp add: lx2_def advance_def src1)
  next
    case False
    then have "lx2 = skip_digits lx" by (simp only: lx2_def if_False)
    with b1 show ?thesis by simp
  qed
  have "number strtod strtol lx = (\<lparr> type = TOKEN_NUMBER, byte_offset = start lx,
            length_bytes = current lx2 - start lx,
            val = (if CHR ''.'' \<in> set (take (current lx2 - start lx) (drop (start lx) (source lx)))
                   then VALUE_FLOATING (strtod (drop (start lx) (source lx)))
                   else VALUE_INTEGER (strtol (drop (start lx) (source lx)) 10)) \<rparr>, lx2)"
    by (simp only: number_unfold Let_def lx2_def)
  with n have tok: "tok = \<lparr> type = TOKEN_NUMBER, byte_offset = start lx,
            length_bytes = current lx2 - start lx,
            val = (if CHR ''.'' \<in> set (take (current lx2 - start lx) (drop (start lx) (source lx)))
                   then VALUE_FLOATING (strtod (drop (start lx) (source lx)))
                   else VALUE_INTEGER (strtol (drop (start lx) (source lx)) 10)) \<rparr>"
    by (metis fst_conv)
  have lex: "lexeme lx tok = take (current lx2 - start lx) (drop (start lx) (source lx))"
    by (simp add: lexeme_def tok)
  have len: "length (lexeme lx tok) = current lx2 - start lx"
    using b2 s cur2 by (simp add: lex)
  have nth: "\<And>i. i < current lx2 - start lx \<Longrightarrow> lexeme lx tok ! i = source lx ! (start lx + i)"
    using b2 by (simp add: lex)
  have points: "\<forall>i. current lx - start lx \<le> i \<and> i < length (lexeme lx tok)
              \<and> lexeme lx tok ! i = CHR ''.''
            \<longrightarrow> i + 1 < length (lexeme lx tok) \<and> is_digit (lexeme lx tok ! (i + 1))"
  proof (intro allI impI)
    fix i
    assume a: "current lx - start lx \<le> i \<and> i < length (lexeme lx tok)
              \<and> lexeme lx tok ! i = CHR ''.''"
    then have i: "i < current lx2 - start lx" by (simp add: len)
    from a have "current lx - start lx \<le> i" by (rule conjunct1)
    with s have j1: "current lx \<le> start lx + i" by arith
    from i have j2: "start lx + i < current lx2" by simp
    from a i have p: "source lx ! (start lx + i) = CHR ''.''" by (simp add: nth)
    from consumed_point [OF s c lx2_def j1 j2 p]
    have r: "start lx + i + 1 < current lx2" and d: "is_digit (source lx ! (start lx + i + 1))"
      by simp_all
    from r have i1: "i + 1 < current lx2 - start lx" by simp
    with d show "i + 1 < length (lexeme lx tok) \<and> is_digit (lexeme lx tok ! (i + 1))"
      by (simp add: len nth add.assoc)
  qed
  have ty: "type tok = TOKEN_NUMBER"
    by (simp add: tok)
  have "val tok = (if CHR ''.'' \<in> set (take (current lx2 - start lx) (drop (start lx) (source lx)))
                   then VALUE_FLOATING (strtod (drop (start lx) (source lx)))
                   else VALUE_INTEGER (strtol (drop (start lx) (source lx)) 10))"
    by (subst tok) simp
  then have v: "val tok = (if CHR ''.'' \<in> set (lexeme lx tok)
                   then VALUE_FLOATING (strtod (drop (start lx) (source lx)))
                   else VALUE_INTEGER (strtol (drop (start lx) (source lx)) 10))"
    by (simp only: lex)
  show "type tok = TOKEN_NUMBER
     \<and> ((\<exists>d. val tok = VALUE_FLOATING d) \<longleftrightarrow> CHR ''.'' \<in> set (lexeme lx tok))
     \<and> (CHR ''.'' \<in> set (lexeme lx tok)
          \<longrightarrow> val tok = VALUE_FLOATING (strtod (drop (start lx) (source lx))))
     \<and> (CHR ''.'' \<notin> set (lexeme lx tok)
          \<longrightarrow> val tok = VALUE_INTEGER (strtol (drop (start lx) (source lx)) 10))
     \<and> (\<forall>i. current lx - start lx \<le> i \<and> i < length (lexeme lx tok)
              \<and> lexeme lx tok ! i = CHR ''.''
            \<longrightarrow> i + 1 < length (lexeme lx tok) \<and> is_digit (lexeme lx tok ! (i + 1)))"
  proof (intro conjI)
    show "type tok = TOKEN_NUMBER" by (rule ty)
    show "(\<exists>d. val tok = VALUE_FLOATING d) \<longleftrightarrow> CHR ''.'' \<in> set (lexeme lx tok)"
      by (cases "CHR ''.'' \<in> set (lexeme lx tok)") (simp_all only: v if_True if_False, simp_all)
    show "CHR ''.'' \<in> set (lexeme lx tok)
          \<longrightarrow> val tok = VALUE_FLOATING (strtod (drop (start lx) (source lx)))"
      by (simp only: v if_True if_False split: if_splits, simp)
    show "CHR ''.'' \<notin> set (lexeme lx tok)
          \<longrightarrow> val tok = VALUE_INTEGER (strtol (drop (start lx) (source lx)) 10)"
      by (simp only: v if_True if_False split: if_splits, simp)
    show "\<forall>i. current lx - start lx \<le> i \<and> i < length (lexeme lx tok)
              \<and> lexeme lx tok ! i = CHR ''.''
            \<longrightarrow> i + 1 < length (lexeme lx tok) \<and> is_digit (lexeme lx tok ! (i + 1))"
      by (rule points)
  qed
qed

lemma skip_digits_example_1:
  "skip_digits \<lparr> source = ''3.14)'', start = 0, current = Suc 0 \<rparr>
     = \<lparr> source = ''3.14)'', start = 0, current = Suc 0 \<rparr>"
  by (subst skip_digits.simps) (simp add: peek_def is_digit_def)

lemma skip_digits_example_2:
  "skip_digits \<lparr> source = ''3.14)'', start = 0, current = Suc (Suc 0) \<rparr>
     = \<lparr> source = ''3.14)'', start = 0, current = 4 \<rparr>"
  apply (subst skip_digits.simps, simp add: peek_def is_digit_def advance_def)
  apply (subst skip_digits.simps, simp add: peek_def is_digit_def advance_def)
  apply (subst skip_digits.simps, simp add: peek_def is_digit_def advance_def)
  done

lemma number_example_float:
  "number id (\<lambda>s base. 0) \<lparr> source = ''3.14)'', start = 0, current = 1 \<rparr>
     = (\<lparr> type = TOKEN_NUMBER, byte_offset = 0, length_bytes = 4,
           val = VALUE_FLOATING ''3.14)'' \<rparr>,
        \<lparr> source = ''3.14)'', start = 0, current = 4 \<rparr>)"
  by (simp add: number_def Let_def skip_digits_example_1 skip_digits_example_2 peek_def
        peek_next_def advance_def is_digit_def make_token_def)

lemma skip_digits_example_3:
  "skip_digits \<lparr> source = ''12.)'', start = 0, current = Suc 0 \<rparr>
     = \<lparr> source = ''12.)'', start = 0, current = 2 \<rparr>"
  apply (subst skip_digits.simps, simp add: peek_def is_digit_def advance_def)
  apply (subst skip_digits.simps, simp add: peek_def is_digit_def advance_def)
  done

lemma number_example_integer:
  "number id (\<lambda>s base. 0) \<lparr> source = ''12.)'', start = 0, current = 1 \<rparr>
     = (\<lparr> type = TOKEN_NUMBER, byte_offset = 0, length_bytes = 2,
           val = VALUE_INTEGER 0 \<rparr>,
        \<lparr> source = ''12.)'', start = 0, current = 2 \<rparr>)"
  by (simp add: number_def Let_def skip_digits_example_3 peek_def peek_next_def advance_def
        is_digit_def make_token_def)

theorem number_token_witness:
  "start \<lparr> source = ''3.14)'', start = 0, current = 1 \<rparr>
     \<le> current \<lparr> source = ''3.14)'', start = 0, current = 1 \<rparr>
   \<and> current \<lparr> source = ''3.14)'', start = 0, current = 1 \<rparr>
     \<le> length (source \<lparr> source = ''3.14)'', start = 0, current = 1 \<rparr>)
   \<and> number id (\<lambda>s base. 0) \<lparr> source = ''3.14)'', start = 0, current = 1 \<rparr>
     = (\<lparr> type = TOKEN_NUMBER, byte_offset = 0, length_bytes = 4,
           val = VALUE_FLOATING ''3.14)'' \<rparr>,
        \<lparr> source = ''3.14)'', start = 0, current = 4 \<rparr>)
   \<and> lexeme \<lparr> source = ''3.14)'', start = 0, current = 1 \<rparr>
        \<lparr> type = TOKEN_NUMBER, byte_offset = 0, length_bytes = 4,
          val = VALUE_FLOATING ''3.14)'' \<rparr> = ''3.14''
   \<and> CHR ''.'' \<in> set ''3.14''
   \<and> ''3.14'' ! 1 = CHR ''.'' \<and> is_digit (''3.14'' ! (1 + 1))
   \<and> number id (\<lambda>s base. 0) \<lparr> source = ''12.)'', start = 0, current = 1 \<rparr>
     = (\<lparr> type = TOKEN_NUMBER, byte_offset = 0, length_bytes = 2,
           val = VALUE_INTEGER 0 \<rparr>,
        \<lparr> source = ''12.)'', start = 0, current = 2 \<rparr>)
   \<and> lexeme \<lparr> source = ''12.)'', start = 0, current = 1 \<rparr>
        (\<lparr> type = TOKEN_NUMBER, byte_offset = 0, length_bytes = 2,
           val = VALUE_INTEGER 0 \<rparr> :: string Token) = ''12''
   \<and> CHR ''.'' \<notin> set ''12''"
proof -
  let ?lf = "\<lparr> source = ''3.14)'', start = 0, current = 1 \<rparr>"
  let ?tf = "\<lparr> type = TOKEN_NUMBER, byte_offset = 0, length_bytes = 4,
               val = VALUE_FLOATING ''3.14)'' \<rparr>"
  let ?li = "\<lparr> source = ''12.)'', start = 0, current = 1 \<rparr>"
  let ?ti = "\<lparr> type = TOKEN_NUMBER, byte_offset = 0, length_bytes = 2,
               val = VALUE_INTEGER (0::int) \<rparr> :: string Token"
  have hf: "start ?lf \<le> current ?lf \<and> current ?lf \<le> length (source ?lf)
     \<and> number id (\<lambda>s base. 0) ?lf = (?tf, \<lparr> source = ''3.14)'', start = 0, current = 4 \<rparr>)"
    using number_example_float by simp
  have hi: "start ?li \<le> current ?li \<and> current ?li \<le> length (source ?li)
     \<and> number id (\<lambda>s base. 0) ?li = (?ti, \<lparr> source = ''12.)'', start = 0, current = 2 \<rparr>)"
    using number_example_integer by simp
  have lf: "lexeme ?lf ?tf = ''3.14''" by (simp add: lexeme_def)
  have li: "lexeme ?li ?ti = ''12''" by (simp add: lexeme_def)
  from number_token [of ?lf id "\<lambda>s base. 0" ?tf, THEN mp, OF hf]
  have "CHR ''.'' \<in> set (lexeme ?lf ?tf)
      \<and> (1 < length (lexeme ?lf ?tf) \<and> lexeme ?lf ?tf ! 1 = CHR ''.''
           \<longrightarrow> is_digit (lexeme ?lf ?tf ! (1 + 1)))"
    by auto
  then have f: "CHR ''.'' \<in> set ''3.14'' \<and> ''3.14'' ! 1 = CHR ''.'' \<and> is_digit (''3.14'' ! (1 + 1))"
    unfolding lf by simp
  from number_token [of ?li id "\<lambda>s base. 0" ?ti, THEN mp, OF hi]
  have "CHR ''.'' \<notin> set (lexeme ?li ?ti)"
    by auto
  then have i: "CHR ''.'' \<notin> set ''12''"
    unfolding li by simp
  from hf hi lf li f i show ?thesis by blast
qed

section \<open>Binding ids\<close>

lemma create_binding_next:
  "next_binding_id (snd (binding_system_create_binding invalid allocs s scope_id name fl))
     = next_binding_id s + 1"
  by (simp add: binding_system_create_binding_def Let_def split: prod.splits)

lemma create_binding_id:
  "create_succeeds allocs s \<Longrightarrow>
   fst (binding_system_create_binding invalid allocs s scope_id name fl) = next_binding_id s"
  by (auto simp: binding_system_create_binding_def create_succeeds_def Let_def
      split: prod.splits)

lemma create_bindings_Cons:
  "create_bindings invalid s ((scope_id, name, fl, allocs) # requests)
     = (if create_succeeds allocs s
        then [fst (binding_system_create_binding invalid allocs s scope_id name fl)] else [])
       @ create_bindings invalid
           (snd (binding_system_create_binding invalid allocs s scope_id name fl)) requests"
  by (simp split: prod.splits)

lemma create_bindings_range:
  "unat (next_binding_id s) + length requests \<le> 2 ^ 64 \<Longrightarrow>
   b \<in> set (create_bindings invalid s requests) \<Longrightarrow>
   unat (next_binding_id s) \<le> unat b \<and> unat b < unat (next_binding_id s) + length requests"
proof (induction requests arbitrary: s)
  case Nil
  then show ?case by simp
next
  case (Cons r requests)
  obtain scope_id name fl allocs where r: "r = (scope_id, name, fl, allocs)"
    by (cases r) auto
  let ?res = "binding_system_create_binding invalid allocs s scope_id name fl"
  have nxt: "next_binding_id (snd ?res) = next_binding_id s + 1"
    by (rule create_binding_next)
  from Cons.prems(2) r consider
      (head) "create_succeeds allocs s" "b = fst ?res"
    | (tail) "b \<in> set (create_bindings invalid (snd ?res) requests)"
    unfolding r create_bindings_Cons by (auto split: if_splits)
  then show ?case
  proof cases
    case head
    then have "b = next_binding_id s" by (simp add: create_binding_id)
    then show ?thesis by simp
  next
    case tail
    then have ne: "requests \<noteq> []" by auto
    with Cons.prems(1) have lt: "unat (next_binding_id s) + 1 < 2 ^ 64"
      by (cases requests) simp_all
    then have u: "unat (next_binding_id s + 1) = unat (next_binding_id s) + 1"
      by (simp add: unat_word_ariths)
    with Cons.prems(1) have "unat (next_binding_id (snd ?res)) + length requests \<le> 2 ^ 64"
      by (simp add: nxt)
    from Cons.IH [OF this tail] show ?thesis
      by (simp add: nxt u)
  qed
qed

lemma create_bindings_sorted:
  "unat (next_binding_id s) + length requests \<le> 2 ^ 64 \<Longrightarrow>
   sorted_wrt (<) (create_bindings invalid s requests)"
proof (induction requests arbitrary: s)
  case Nil
  then show ?case by simp
next
  case (Cons r requests)
  obtain scope_id name fl allocs where r: "r = (scope_id, name, fl, allocs)"
    by (cases r) auto
  let ?res = "binding_system_create_binding invalid allocs s scope_id name fl"
  have nxt: "next_binding_id (snd ?res) = next_binding_id s + 1"
    by (rule create_binding_next)
  show ?case
  proof (cases "requests = []")
    case True
    with r show ?thesis by (simp add: create_bindings_Cons del: create_bindings.simps(2))
  next
    case False
    with Cons.prems have lt: "unat (next_binding_id s) + 1 < 2 ^ 64"
      by (cases requests) simp_all
    then have u: "unat (next_binding_id s + 1) = unat (next_binding_id s) + 1"
      by (simp add: unat_word_ariths)
    with Cons.prems have bound: "unat (next_binding_id (snd ?res)) + length requests \<le> 2 ^ 64"
      by (simp add: nxt)
    have tail: "sorted_wrt (<) (create_bindings invalid (snd ?res) requests)"
      by (rule Cons.IH [OF bound])
    have above: "\<forall>b \<in> set (create_bindings invalid (snd ?res) requests). next_binding_id s < b"
    proof
      fix b
      assume "b \<in> set (create_bindings invalid (snd ?res) requests)"
      from create_bindings_range [OF bound this]
      have "unat (next_binding_id s) < unat b" by (simp add: nxt u)
      then show "next_binding_id s < b" by (simp add: word_less_nat_alt)
    qed
    show ?thesis
      using tail above
      by (simp add: r create_bindings_Cons create_binding_id del: create_bindings.simps(2))
  qed
qed

text \<open>
  Claim C6 as stated fails. On a binding system whose counter stands at
  \<open>0xFFFFFFFFFFFFFFFE\<close>, four successive successful calls return
  \<open>0xFFFFFFFFFFFFFFFE\<close>, \<open>0xFFFFFFFFFFFFFFFF\<close>, \<open>0\<close> and \<open>1\<close>: the 64-bit counter wraps and
  the ids are not increasing.
\<close>

theorem binding_ids_wrap_around:
  "create_bindings 0 late_system
      [(0, 1, 0, (True, True, True, True)), (0, 2, 0, (True, True, True, True)),
       (0, 3, 0, (True, True, True, True)), (0, 4, 0, (True, True, True, True))]
     = [0xFFFFFFFFFFFFFFFE, 0xFFFFFFFFFFFFFFFF, 0, 1]
   \<and> \<not> sorted_wrt (<) (create_bindings 0 late_system
      [(0, 1, 0, (True, True, True, True)), (0, 2, 0, (True, True, True, True)),
       (0, 3, 0, (True, True, True, True)), (0, 4, 0, (True, True, True, True))])"
proof -
  have e: "create_bindings 0 late_system
      [(0, 1, 0, (True, True, True, True)), (0, 2, 0, (True, True, True, True)),
       (0, 3, 0, (True, True, True, True)), (0, 4, 0, (True, True, True, True))]
     = [0xFFFFFFFFFFFFFFFE, 0xFFFFFFFFFFFFFFFF, 0, 1]"
    by (simp add: late_system_def binding_system_create_binding_def create_succeeds_def
          add_binding_def Let_def word_le_nat_alt word_less_nat_alt)
  show ?thesis
    unfolding e by simp
qed

text \<open>
  Claim C6, amended. For every binding system and every sequence of calls of
  \<open>binding_system_create_binding\<close> during which the 64-bit counter
  \<open>next_binding_id\<close> does not wrap around (its value plus the number of calls is at
  most \<open>2^64\<close>), the ids returned by the successful calls are strictly increasing in
  call order, hence pairwise distinct. Failed calls use up an id as well.
\<close>

theorem binding_ids_increasing:
  "unat (next_binding_id s) + length requests \<le> 2 ^ 64 \<longrightarrow>
     sorted_wrt (<) (create_bindings invalid s requests)
     \<and> distinct (create_bindings invalid s requests)"
proof
  assume "unat (next_binding_id s) + length requests \<le> 2 ^ 64"
  then have "sorted_wrt (<) (create_bindings invalid s requests)"
    by (rule create_bindings_sorted)
  then show "sorted_wrt (<) (create_bindings invalid s requests)
     \<and> distinct (create_bindings invalid s requests)"
    by (simp add: strict_sorted_iff)
qed

theorem binding_ids_increasing_witness:
  "unat (next_binding_id fresh_system)
      + length ([(0, 1, 0, (False, True, True, True)), (0, 2, 0, (True, True, True, True)),
                 (0, 3, 0, (True, True, True, True))] :: request list) \<le> 2 ^ 64
   \<and> create_bindings 0 fresh_system
        [(0, 1, 0, (False, True, True, True)), (0, 2, 0, (True, True, True, True)),
         (0, 3, 0, (True, True, True, True))] = [2, 3]
   \<and> sorted_wrt (<) (create_bindings 0 fresh_system
        [(0, 1, 0, (False, True, True, True)), (0, 2, 0, (True, True, True, True)),
         (0, 3, 0, (True, True, True, True))])
   \<and> distinct (create_bindings 0 fresh_system
        [(0, 1, 0, (False, True, True, True)), (0, 2, 0, (True, True, True, True)),
         (0, 3, 0, (True, True, True, True))])"
proof -
  let ?rs = "[(0, 1, 0, (False, True, True, True)), (0, 2, 0, (True, True, True, True)),
              (0, 3, 0, (True, True, True, True))] :: request list"
  have b: "unat (next_binding_id fresh_system) + length ?rs \<le> 2 ^ 64"
    by (simp add: fresh_system_def)
  have e: "create_bindings 0 fresh_system ?rs = [2, 3]"
    by (simp add: fresh_system_def binding_system_create_binding_def create_succeeds_def
          add_binding_def Let_def word_le_nat_alt word_less_nat_alt)
  from binding_ids_increasing [of fresh_system ?rs 0, THEN mp, OF b] b e
  show ?thesis by blast
qed

section \<open>Arena allocation\<close>

lemma and_not_mask3: "(y :: 64 word) AND NOT (mask 3) = push_bit 3 (drop_bit 3 y)"
proof (rule bit_word_eqI)
  fix n
  assume "n < LENGTH(64)"
  then show "bit (y AND NOT (mask 3)) n = bit (push_bit 3 (drop_bit 3 y)) n"
    by (cases "n < 3")
       (auto simp only: bit_and_iff bit_not_iff bit_mask_iff bit_push_bit_iff bit_drop_bit_eq
          possible_bit_word not_less le_add_diff_inverse comp_def intro: bit_imp_possible_bit)
qed

lemma unat_and_not_7: "unat ((y :: 64 word) AND NOT 7) = (unat y div 8) * 8"
proof -
  have "NOT (7 :: 64 word) = NOT (mask 3)"
    by (simp add: mask_eq_exp_minus_1)
  then have "y AND NOT 7 = push_bit 3 (drop_bit 3 y)"
    by (simp only: and_not_mask3)
  also have "\<dots> = (y div 8) * 8"
    by (simp add: push_bit_eq_mult drop_bit_eq_div)
  finally have e: "y AND NOT 7 = (y div 8) * 8" .
  have d: "unat (y div 8) = unat y div 8"
    by (simp add: unat_div)
  have "unat y < 2 ^ 64" using unsigned_less [of y] by simp
  then have "unat y div 8 * 8 < 2 ^ 64" by simp
  then have "unat ((y div 8) * 8) = unat y div 8 * 8"
    using d by (simp add: unat_word_ariths)
  with e show ?thesis by simp
qed

lemma unat_round_up:
  "unat (x :: 64 word) \<le> 2 ^ 64 - 8 \<Longrightarrow> unat ((x + 7) AND NOT 7) = ((unat x + 7) div 8) * 8"
proof -
  assume "unat x \<le> 2 ^ 64 - 8"
  then have "unat x + 7 < 2 ^ 64" by simp
  then have "unat (x + 7) = unat x + 7"
    by (simp add: unat_word_ariths)
  then show ?thesis by (simp only: unat_and_not_7)
qed


lemma round_up8_unat:
  "unat (x :: 64 word) \<le> 2 ^ 64 - 8 \<Longrightarrow> unat ((x + 7) AND NOT 7) = round_up8 (unat x)"
  by (simp only: round_up8_def unat_round_up)

text \<open>
  Claim C9 as stated fails. For the request of \<open>0xFFFFFFFFFFFFFFFF\<close> bytes the rounding
  \<open>(size + 7) & ~7\<close> wraps around to 0: the call on a fresh arena succeeds, returns the
  start of the first block and leaves \<open>used\<close> and \<open>total_used\<close> at 0, although the next
  multiple of 8 above the size is \<open>2^64\<close>.
\<close>

theorem arena_alloc_rounding_wraps:
  "arena_alloc True created_arena 0xFFFFFFFFFFFFFFFF
     = (Some (0, 0), created_arena\<lparr>allocation_count := 1\<rparr>)
   \<and> round_up8 (unat (0xFFFFFFFFFFFFFFFF :: 64 word)) = 2 ^ 64
   \<and> unat (total_used (snd (arena_alloc True created_arena 0xFFFFFFFFFFFFFFFF)))
       \<noteq> unat (total_used created_arena) + round_up8 (unat (0xFFFFFFFFFFFFFFFF :: 64 word))"
proof -
  have z: "((0xFFFFFFFFFFFFFFFF :: 64 word) + 7) AND NOT 7 = 0"
    by simp
  have e: "arena_alloc True created_arena 0xFFFFFFFFFFFFFFFF
     = (Some (0, 0), created_arena\<lparr>allocation_count := 1\<rparr>)"
    unfolding arena_alloc_def Let_def z
    by (simp add: created_arena_def allocate_from_current_def)
  have r: "round_up8 (unat (0xFFFFFFFFFFFFFFFF :: 64 word)) = 2 ^ 64"
    by (simp add: round_up8_def)
  show ?thesis
    unfolding e r by (simp add: created_arena_def)
qed

text \<open>
  Claim C9, amended. Let the requested size be greater than zero and at most
  \<open>2^64 - 8\<close>, so that the rounded size, the next multiple of 8, fits in \<open>size_t\<close>, and
  let \<open>used\<close> of the current block plus the rounded size stay below \<open>2^64\<close>. Then a
  successful \<open>arena_alloc\<close> adds the rounded size to \<open>total_used\<close> and one to
  \<open>allocation_count\<close>. If the current block has room, the pointer is at its \<open>used\<close>,
  which grows by the rounded size. If it has not, a new block becomes current, of size
  the larger of twice the old block's size (in \<open>size_t\<close>) and the rounded size, with
  \<open>used\<close> equal to the rounded size; this needs the \<open>malloc\<close> to succeed, and when it
  fails the call returns NULL and leaves the arena unchanged. \<open>arena_alloc\<close> with size
  zero returns NULL and leaves the arena unchanged.
\<close>

theorem arena_alloc_effect:
  "arena_alloc malloc_ok a 0 = (None, a)
   \<and> (current_block a < length (blocks a) \<and> size_requested \<noteq> 0
       \<and> unat size_requested \<le> 2 ^ 64 - 8
       \<and> unat (used (blocks a ! current_block a)) + round_up8 (unat size_requested) < 2 ^ 64
      \<longrightarrow>
       (let r = round_up8 (unat size_requested);
            cur = blocks a ! current_block a;
            res = arena_alloc malloc_ok a size_requested;
            a' = snd res;
            cur' = blocks a' ! current_block a'
        in (unat (used cur) + r \<le> unat (size_bytes cur)
              \<longrightarrow> fst res = Some (current_block a, used cur)
                \<and> current_block a' = current_block a
                \<and> size_bytes cur' = size_bytes cur
                \<and> unat (used cur') = unat (used cur) + r
                \<and> total_used a' = total_used a + of_nat r
                \<and> allocation_count a' = allocation_count a + 1)
         \<and> (unat (size_bytes cur) < unat (used cur) + r \<and> malloc_ok
              \<longrightarrow> fst res = Some (current_block a + 1, 0)
                \<and> current_block a' = current_block a + 1
                \<and> size_bytes cur' = max (size_bytes cur * 2) (of_nat r)
                \<and> (2 * unat (size_bytes cur) < 2 ^ 64
                     \<longrightarrow> unat (size_bytes cur') = max (2 * unat (size_bytes cur)) r)
                \<and> unat (used cur') = r
                \<and> total_used a' = total_used a + of_nat r
                \<and> allocation_count a' = allocation_count a + 1)
         \<and> (unat (size_bytes cur) < unat (used cur) + r \<and> \<not> malloc_ok
              \<longrightarrow> res = (None, a))))"
proof (intro conjI impI)
  show "arena_alloc malloc_ok a 0 = (None, a)"
    by (simp add: arena_alloc_def)
next
  assume h: "current_block a < length (blocks a) \<and> size_requested \<noteq> 0
       \<and> unat size_requested \<le> 2 ^ 64 - 8
       \<and> unat (used (blocks a ! current_block a)) + round_up8 (unat size_requested) < 2 ^ 64"
  define sz where "sz = (size_requested + 7) AND NOT 7"
  define r where "r = round_up8 (unat size_requested)"
  define cur where "cur = blocks a ! current_block a"
  from h have wf: "current_block a < length (blocks a)" and nz: "size_requested \<noteq> 0"
    and bound: "unat size_requested \<le> 2 ^ 64 - 8"
    and room: "unat (used cur) + r < 2 ^ 64"
    by (simp_all add: r_def cur_def)
  have usz: "unat sz = r"
    unfolding sz_def r_def by (rule round_up8_unat [OF bound])
  then have szr: "of_nat r = sz" by (simp add: usz [symmetric])
  have uadd: "unat (used cur + sz) = unat (used cur) + r"
    using room usz by (simp add: unat_word_ariths)
  have gt: "(used cur + sz > size_bytes cur) = (unat (size_bytes cur) < unat (used cur) + r)"
    by (simp add: word_less_nat_alt uadd)
  have unf: "arena_alloc malloc_ok a size_requested =
     (if unat (size_bytes cur) < unat (used cur) + r then
        (if \<not> malloc_ok then (None, a)
         else allocate_from_current sz
                (a\<lparr> blocks := take (current_block a + 1) (blocks a)
                                 @ [\<lparr> size_bytes = max (size_bytes cur * 2) sz, used = 0 \<rparr>],
                    current_block := current_block a + 1 \<rparr>))
      else allocate_from_current sz a)"
    unfolding arena_alloc_def Let_def sz_def [symmetric] cur_def [symmetric]
    using nz gt by (auto simp: max_def not_less)
  have fits: "unat (used cur) + r \<le> unat (size_bytes cur) \<Longrightarrow>
      arena_alloc malloc_ok a size_requested = allocate_from_current sz a"
    by (subst unf) simp
  have grow: "unat (size_bytes cur) < unat (used cur) + r \<Longrightarrow> malloc_ok \<Longrightarrow>
      arena_alloc malloc_ok a size_requested =
        allocate_from_current sz
          (a\<lparr> blocks := take (current_block a + 1) (blocks a)
                           @ [\<lparr> size_bytes = max (size_bytes cur * 2) sz, used = 0 \<rparr>],
              current_block := current_block a + 1 \<rparr>)"
    by (subst unf) simp
  have len: "length (take (current_block a + 1) (blocks a)) = current_block a + 1"
    using wf by simp
  have dbl: "2 * unat (size_bytes cur) < 2 ^ 64 \<Longrightarrow>
      unat (max (size_bytes cur * 2) sz) = max (2 * unat (size_bytes cur)) r"
  proof -
    assume "2 * unat (size_bytes cur) < 2 ^ 64"
    then have "unat (size_bytes cur * 2) = 2 * unat (size_bytes cur)"
      by (simp add: unat_word_ariths)
    then show ?thesis
      by (simp add: max_def word_le_nat_alt usz)
  qed
  show "let r = round_up8 (unat size_requested);
            cur = blocks a ! current_block a;
            res = arena_alloc malloc_ok a size_requested;
            a' = snd res;
            cur' = blocks a' ! current_block a'
        in (unat (used cur) + r \<le> unat (size_bytes cur)
              \<longrightarrow> fst res = Some (current_block a, used cur)
                \<and> current_block a' = current_block a
                \<and> size_bytes cur' = size_bytes cur
                \<and> unat (used cur') = unat (used cur) + r
                \<and> total_used a' = total_used a + of_nat r
                \<and> allocation_count a' = allocation_count a + 1)
         \<and> (unat (size_bytes cur) < unat (used cur) + r \<and> malloc_ok
              \<longrightarrow> fst res = Some (current_block a + 1, 0)
                \<and> current_block a' = current_block a + 1
                \<and> size_bytes cur' = max (size_bytes cur * 2) (of_nat r)
                \<and> (2 * unat (size_bytes cur) < 2 ^ 64
                     \<longrightarrow> unat (size_bytes cur') = max (2 * unat (size_bytes cur)) r)
                \<and> unat (used cur') = r
                \<and> total_used a' = total_used a + of_nat r
                \<and> allocation_count a' = allocation_count a + 1)
         \<and> (unat (size_bytes cur) < unat (used cur) + r \<and> \<not> malloc_ok
              \<longrightarrow> res = (None, a))"
    unfolding Let_def r_def [symmetric] cur_def [symmetric] szr
  proof (intro conjI impI)
    assume f: "unat (used cur) + r \<le> unat (size_bytes cur)"
    show "fst (arena_alloc malloc_ok a size_requested) = Some (current_block a, used cur)"
      and "current_block (snd (arena_alloc malloc_ok a size_requested)) = current_block a"
      and "size_bytes (blocks (snd (arena_alloc malloc_ok a size_requested))
              ! current_block (snd (arena_alloc malloc_ok a size_requested))) = size_bytes cur"
      and "unat (used (blocks (snd (arena_alloc malloc_ok a size_requested))
              ! current_block (snd (arena_alloc malloc_ok a size_requested)))) = unat (used cur) + r"
      and "total_used (snd (arena_alloc malloc_ok a size_requested)) = total_used a + sz"
      and "allocation_count (snd (arena_alloc malloc_ok a size_requested)) = allocation_count a + 1"
      using wf uadd
      by (simp_all add: fits [OF f] allocate_from_current_def Let_def cur_def [symmetric])
  next
    assume g: "unat (size_bytes cur) < unat (used cur) + r \<and> malloc_ok"
    then have g1: "unat (size_bytes cur) < unat (used cur) + r" and g2: malloc_ok
      by simp_all
    note e = grow [OF g1 g2]
    show "fst (arena_alloc malloc_ok a size_requested) = Some (current_block a + 1, 0)"
      and "current_block (snd (arena_alloc malloc_ok a size_requested)) = current_block a + 1"
      and "size_bytes (blocks (snd (arena_alloc malloc_ok a size_requested))
              ! current_block (snd (arena_alloc malloc_ok a size_requested)))
            = max (size_bytes cur * 2) sz"
      and "unat (used (blocks (snd (arena_alloc malloc_ok a size_requested))
              ! current_block (snd (arena_alloc malloc_ok a size_requested)))) = r"
      and "total_used (snd (arena_alloc malloc_ok a size_requested)) = total_used a + sz"
      and "allocation_count (snd (arena_alloc malloc_ok a size_requested)) = allocation_count a + 1"
      using wf usz
      by (simp_all add: e allocate_from_current_def Let_def nth_append len)
    assume d: "2 * unat (size_bytes cur) < 2 ^ 64"
    show "unat (size_bytes (blocks (snd (arena_alloc malloc_ok a size_requested))
              ! current_block (snd (arena_alloc malloc_ok a size_requested))))
            = max (2 * unat (size_bytes cur)) r"
      using wf dbl [OF d]
      by (simp add: e allocate_from_current_def Let_def nth_append len)
  next
    assume "unat (size_bytes cur) < unat (used cur) + r \<and> \<not> malloc_ok"
    then show "arena_alloc malloc_ok a size_requested = (None, a)"
      by (subst unf) simp
  qed
qed

theorem arena_alloc_effect_witness:
  "current_block created_arena < length (blocks created_arena) \<and> (13 :: 64 word) \<noteq> 0
   \<and> unat (13 :: 64 word) \<le> 2 ^ 64 - 8
   \<and> unat (used (blocks created_arena ! current_block created_arena))
         + round_up8 (unat (13 :: 64 word)) < 2 ^ 64
   \<and> round_up8 (unat (13 :: 64 word)) = 16
   \<and> unat (used (blocks created_arena ! current_block created_arena)) + 16
         \<le> unat (size_bytes (blocks created_arena ! current_block created_arena))
   \<and> fst (arena_alloc True created_arena 13) = Some (0, 0)
   \<and> unat (used (blocks (snd (arena_alloc True created_arena 13))
                    ! current_block (snd (arena_alloc True created_arena 13)))) = 16
   \<and> total_used (snd (arena_alloc True created_arena 13)) = 16
   \<and> current_block nearly_full_arena < length (blocks nearly_full_arena)
   \<and> unat (used (blocks nearly_full_arena ! current_block nearly_full_arena))
         + round_up8 (unat (13 :: 64 word)) < 2 ^ 64
   \<and> unat (size_bytes (blocks nearly_full_arena ! current_block nearly_full_arena))
         < unat (used (blocks nearly_full_arena ! current_block nearly_full_arena)) + 16
   \<and> 2 * unat (size_bytes (blocks nearly_full_arena ! current_block nearly_full_arena)) < 2 ^ 64
   \<and> fst (arena_alloc True nearly_full_arena 13) = Some (1, 0)
   \<and> unat (size_bytes (blocks (snd (arena_alloc True nearly_full_arena 13))
                    ! current_block (snd (arena_alloc True nearly_full_arena 13)))) = 2048
   \<and> unat (used (blocks (snd (arena_alloc True nearly_full_arena 13))
                    ! current_block (snd (arena_alloc True nearly_full_arena 13)))) = 16
   \<and> total_used (snd (arena_alloc True nearly_full_arena 13)) = 1032
   \<and> arena_alloc False nearly_full_arena 13 = (None, nearly_full_arena)"
proof -
  have r: "round_up8 (unat (13 :: 64 word)) = 16"
    by (simp add: round_up8_def)
  have h1: "current_block created_arena < length (blocks created_arena) \<and> (13 :: 64 word) \<noteq> 0
     \<and> unat (13 :: 64 word) \<le> 2 ^ 64 - 8
     \<and> unat (used (blocks created_arena ! current_block created_arena))
           + round_up8 (unat (13 :: 64 word)) < 2 ^ 64"
    by (simp add: round_up8_def created_arena_def)
  have f1: "unat (used (blocks created_arena ! current_block created_arena)) + 16
         \<le> unat (size_bytes (blocks created_arena ! current_block created_arena))"
    by (simp add: created_arena_def)
  have u1: "used (blocks created_arena ! 0) = 0"
    and c1: "current_block created_arena = 0" and t1: "total_used created_arena = 0"
    by (simp_all add: created_arena_def)
  from arena_alloc_effect [of True created_arena 13, THEN conjunct2, THEN mp, OF h1] f1
  have e1: "fst (arena_alloc True created_arena 13) = Some (0, 0)
     \<and> unat (used (blocks (snd (arena_alloc True created_arena 13))
                    ! current_block (snd (arena_alloc True created_arena 13)))) = 16
     \<and> total_used (snd (arena_alloc True created_arena 13)) = 16"
    unfolding Let_def r by (auto simp: u1 c1 t1)
  have h2: "current_block nearly_full_arena < length (blocks nearly_full_arena) \<and> (13 :: 64 word) \<noteq> 0
     \<and> unat (13 :: 64 word) \<le> 2 ^ 64 - 8
     \<and> unat (used (blocks nearly_full_arena ! current_block nearly_full_arena))
           + round_up8 (unat (13 :: 64 word)) < 2 ^ 64"
    by (simp add: round_up8_def nearly_full_arena_def)
  have g2: "unat (size_bytes (blocks nearly_full_arena ! current_block nearly_full_arena))
         < unat (used (blocks nearly_full_arena ! current_block nearly_full_arena)) + 16"
    and d2: "2 * unat (size_bytes (blocks nearly_full_arena ! current_block nearly_full_arena)) < 2 ^ 64"
    by (simp_all add: nearly_full_arena_def)
  have s2: "size_bytes (blocks nearly_full_arena ! 0) = 1024"
    and c2: "current_block nearly_full_arena = 0" and t2: "total_used nearly_full_arena = 1016"
    by (simp_all add: nearly_full_arena_def)
  from arena_alloc_effect [of True nearly_full_arena 13, THEN conjunct2, THEN mp, OF h2] g2 d2
  have e2: "fst (arena_alloc True nearly_full_arena 13) = Some (1, 0)
     \<and> unat (size_bytes (blocks (snd (arena_alloc True nearly_full_arena 13))
                    ! current_block (snd (arena_alloc True nearly_full_arena 13)))) = 2048
     \<and> unat (used (blocks (snd (arena_alloc True nearly_full_arena 13))
                    ! current_block (snd (arena_alloc True nearly_full_arena 13)))) = 16
     \<and> total_used (snd (arena_alloc True nearly_full_arena 13)) = 1032"
    unfolding Let_def r by (auto simp: s2 c2 t2)
  from arena_alloc_effect [of False nearly_full_arena 13, THEN conjunct2, THEN mp, OF h2] g2
  have e3: "arena_alloc False nearly_full_arena 13 = (None, nearly_full_arena)"
    unfolding Let_def r by simp
  from h1 r f1 e1 h2 g2 d2 e2 e3 show ?thesis by simp
qed


end
